theory Spec2Isabelle
  imports Main "HOL-Library.Sublist"
begin

section \<open>Strings and lexical paths (Go's \<open>strings\<close> and Unix \<open>path/filepath\<close>)\<close>

text \<open>
  The installer manipulates paths only through Go's standard library. The functions below
  follow the Unix implementation of \<open>path/filepath\<close> (separator \<open>/\<close>, no volume
  names), which is the implementation used on Linux and macOS.
\<close>

definition HasPrefix :: "string \<Rightarrow> string \<Rightarrow> bool" where
  \<comment> \<open>\<open>strings.HasPrefix(s, pre)\<close>\<close>
  "HasPrefix s pre = prefix pre s"

definition HasSuffix :: "string \<Rightarrow> string \<Rightarrow> bool" where
  \<comment> \<open>\<open>strings.HasSuffix(s, suf)\<close>\<close>
  "HasSuffix s suf = suffix suf s"

fun Contains :: "string \<Rightarrow> string \<Rightarrow> bool" where
  \<comment> \<open>\<open>strings.Contains(s, sub)\<close>\<close>
  "Contains [] sub = (sub = [])"
| "Contains (c # cs) sub = (prefix sub (c # cs) \<or> Contains cs sub)"

definition Separator :: char where
  "Separator = CHR ''/''"

fun splitSep :: "string \<Rightarrow> string list" where
  \<comment> \<open>the elements between separators, empty ones included\<close>
  "splitSep [] = [[]]"
| "splitSep (c # cs) =
     (if c = Separator then [] # splitSep cs
      else (case splitSep cs of [] \<Rightarrow> [[c]] | x # xs \<Rightarrow> (c # x) # xs))"

fun joinSep :: "string list \<Rightarrow> string" where
  \<comment> \<open>\<open>strings.Join(elems, "/")\<close>\<close>
  "joinSep [] = []"
| "joinSep [x] = x"
| "joinSep (x # y # ys) = x @ Separator # joinSep (y # ys)"

definition rooted :: "string \<Rightarrow> bool" where
  "rooted p = (case p of [] \<Rightarrow> False | c # _ \<Rightarrow> c = Separator)"

definition cleanElem :: "bool \<Rightarrow> string list \<Rightarrow> string \<Rightarrow> string list" where
  \<comment> \<open>One iteration of the loop of \<open>filepath.Clean\<close>; the output buffer is kept as the
      reversed list of the elements written so far. An empty element and \<open>.\<close> are dropped;
      \<open>..\<close> removes the last element when there is one to backtrack over, is kept when
      the path is not rooted, and is dropped at the root.\<close>
  "cleanElem r out e =
     (if e = [] \<or> e = ''.'' then out
      else if e = ''..'' then
        (if out \<noteq> [] \<and> hd out \<noteq> ''..'' then tl out
         else if \<not> r then ''..'' # out
         else out)
      else e # out)"

definition cleanElems :: "bool \<Rightarrow> string list \<Rightarrow> string list" where
  "cleanElems r es = rev (foldl (cleanElem r) [] es)"

definition render :: "bool \<Rightarrow> string list \<Rightarrow> string" where
  \<comment> \<open>the buffer of \<open>Clean\<close> as a string: a leading separator when rooted, \<open>.\<close> when
      nothing was written\<close>
  "render r es =
     (if r then Separator # joinSep es
      else if es = [] then ''.'' else joinSep es)"

definition Clean :: "string \<Rightarrow> string" where
  \<comment> \<open>\<open>filepath.Clean\<close>\<close>
  "Clean p = (if p = [] then ''.'' else render (rooted p) (cleanElems (rooted p) (splitSep p)))"

fun Join :: "string list \<Rightarrow> string" where
  \<comment> \<open>\<open>filepath.Join\<close>: leading empty elements are ignored, the rest is joined with the
      separator and cleaned; all elements empty gives the empty string\<close>
  "Join [] = []"
| "Join (e # es) = (if e \<noteq> [] then Clean (joinSep (e # es)) else Join es)"

definition Base :: "string \<Rightarrow> string" where
  \<comment> \<open>\<open>filepath.Base\<close>: the last element, trailing separators removed first\<close>
  "Base p =
     (if p = [] then ''.''
      else let q = rev (dropWhile (\<lambda>c. c = Separator) (rev p));
               b = rev (takeWhile (\<lambda>c. c \<noteq> Separator) (rev q))
           in if b = [] then [Separator] else b)"

definition Dir :: "string \<Rightarrow> string" where
  \<comment> \<open>\<open>filepath.Dir\<close>: everything up to the last separator, cleaned\<close>
  "Dir p = Clean (rev (dropWhile (\<lambda>c. c \<noteq> Separator) (rev p)))"

section \<open>Platform resolver\<close>

record PlatformConfig =
  downloadURLTemplate :: string
  tempFileName :: string
  installPath :: string
  binaryName :: string

definition getPlatformConfig :: "string \<Rightarrow> PlatformConfig" where
  \<comment> \<open>the argument is \<open>runtime.GOOS\<close>\<close>
  "getPlatformConfig goos =
     (if goos = ''windows'' then
        \<lparr> downloadURLTemplate = ''https://github.com/ollama/ollama/releases/download/%s/ollama-windows-amd64.zip'',
          tempFileName = ''ollama.zip'',
          installPath = ''~/AppData/Local/Programs/Ollama/ollama.exe'',
          binaryName = ''ollama.exe'' \<rparr>
      else if goos = ''linux'' then
        \<lparr> downloadURLTemplate = ''https://github.com/ollama/ollama/releases/download/%s/ollama-linux-amd64.tgz'',
          tempFileName = ''ollama.tgz'',
          installPath = ''~/bin/ollama'',
          binaryName = ''ollama'' \<rparr>
      else if goos = ''darwin'' then
        \<lparr> downloadURLTemplate = ''https://github.com/ollama/ollama/releases/download/%s/ollama-darwin.zip'',
          tempFileName = ''ollama.zip'',
          installPath = ''~/bin/ollama'',
          binaryName = ''ollama'' \<rparr>
      else
        \<lparr> downloadURLTemplate = ''https://github.com/ollama/ollama/releases/download/%s/ollama-linux-amd64.tgz'',
          tempFileName = ''ollama.tgz'',
          installPath = ''~/bin/ollama'',
          binaryName = ''ollama'' \<rparr>)"

datatype archive_format = ZipFormat | TarGzFormat

definition archiveFormat :: "PlatformConfig \<Rightarrow> archive_format" where
  \<comment> \<open>the dispatch of \<open>extractAndInstall\<close> on the archive's file extension\<close>
  "archiveFormat config =
     (if HasSuffix (tempFileName config) ''.zip'' then ZipFormat else TarGzFormat)"

section \<open>Lexical containment of paths\<close>

definition resolve :: "string \<Rightarrow> bool \<times> string list" where
  \<comment> \<open>a path resolved lexically: whether it is rooted, and the elements that \<open>Clean\<close>
      keeps\<close>
  "resolve p = (rooted p, cleanElems (rooted p) (splitSep p))"

definition descendant :: "string \<Rightarrow> string \<Rightarrow> bool" where
  \<comment> \<open>\<open>descendant d p\<close>: resolved, \<open>p\<close> lies strictly below the directory \<open>d\<close>: both are
      rooted or both are not, the elements of \<open>d\<close> are a proper prefix of those of \<open>p\<close>,
      and what follows them does not climb with \<open>..\<close>\<close>
  "descendant d p =
     (case resolve d of (rd, ed) \<Rightarrow>
        (case resolve p of (rp, ep) \<Rightarrow>
           rd = rp \<and> strict_prefix ed ep \<and> ''..'' \<notin> set (drop (length ed) ep)))"

definition within :: "string \<Rightarrow> string \<Rightarrow> bool" where
  \<comment> \<open>the directory itself or a descendant of it\<close>
  "within d p = (resolve p = resolve d \<or> descendant d p)"

section \<open>Archive extractor\<close>

text \<open>
  The file system is touched through \<open>os.MkdirAll\<close>, \<open>os.OpenFile\<close> (create and
  truncate) and \<open>io.Copy\<close>. The extractor's state carries the list of the calls it has
  issued, each with the path it acts on, whether or not the call succeeded.
\<close>

datatype fs_effect =
    MkdirAll string nat
  | OpenFileTrunc string nat
  | CopyTo string string

fun effectPath :: "fs_effect \<Rightarrow> string" where
  "effectPath (MkdirAll p m) = p"
| "effectPath (OpenFileTrunc p m) = p"
| "effectPath (CopyTo p d) = p"

datatype extract_error =
    OpenArchiveFailed
  | ReadEntryFailed
  | CreateDirFailed string
  | OpenEntryFailed
  | CreateFileFailed string
  | CopyFailed string
  | BinaryNotFound

text \<open>
  How the environment answers the calls made while one entry is processed: the directory
  creation, opening the entry for reading (zip only), creating the target file and copying
  the bytes.
\<close>

record io_outcome =
  mkdir_ok :: bool
  open_ok :: bool
  create_ok :: bool
  copy_ok :: bool

record extract_state =
  binaryPath :: string
  effects :: "fs_effect list"

definition issue :: "fs_effect \<Rightarrow> extract_state \<Rightarrow> extract_state" where
  "issue e st = st\<lparr>effects := effects st @ [e]\<rparr>"

definition insideTempDir :: "string \<Rightarrow> string \<Rightarrow> bool" where
  \<comment> \<open>the guard of both routines:
      \<open>strings.HasPrefix(path, filepath.Clean(tempDir)+string(os.PathSeparator))\<close>\<close>
  "insideTempDir tempDir path = HasPrefix path (Clean tempDir @ [Separator])"

subsection \<open>Zip\<close>

record zip_entry =
  zName :: string
  zModeDir :: bool  \<comment> \<open>the external attributes carry the directory bit\<close>
  zMode :: nat
  zData :: string

definition zipIsDir :: "zip_entry \<Rightarrow> bool" where
  \<comment> \<open>\<open>file.FileInfo().IsDir()\<close>: the directory bit of the attributes, or a name that ends
      in a slash\<close>
  "zipIsDir f = (zModeDir f \<or> (zName f \<noteq> [] \<and> last (zName f) = CHR ''/''))"

definition extractZipEntry ::
  "string \<Rightarrow> string \<Rightarrow> extract_state \<Rightarrow> zip_entry \<times> io_outcome \<Rightarrow> extract_state \<times> extract_error option" where
  \<comment> \<open>the body of the loop of \<open>extractZip\<close>; \<open>None\<close> goes on to the next entry,
      \<open>Some err\<close> returns the error\<close>
  "extractZipEntry tempDir binName st x =
     (case x of (file, io) \<Rightarrow>
        let path = Join [tempDir, zName file] in
        if \<not> insideTempDir tempDir path then (st, None)
        else if zipIsDir file then (issue (MkdirAll path (zMode file)) st, None)
        else
          let st1 = issue (MkdirAll (Dir path) 493) st in
          if \<not> mkdir_ok io then (st1, Some (CreateDirFailed (Dir path)))
          else if \<not> open_ok io then (st1, Some OpenEntryFailed)
          else
            let st2 = issue (OpenFileTrunc path (zMode file)) st1 in
            if \<not> create_ok io then (st2, Some (CreateFileFailed path))
            else
              let st3 = issue (CopyTo path (zData file)) st2 in
              if \<not> copy_ok io then (st3, Some (CopyFailed path))
              else if Base path = binName then (st3\<lparr>binaryPath := path\<rparr>, None)
              else (st3, None))"

fun extractZipEntries ::
  "string \<Rightarrow> string \<Rightarrow> extract_state \<Rightarrow> (zip_entry \<times> io_outcome) list \<Rightarrow> extract_state \<times> extract_error option" where
  "extractZipEntries tempDir binName st [] = (st, None)"
| "extractZipEntries tempDir binName st (x # xs) =
     (case extractZipEntry tempDir binName st x of
        (st', Some err) \<Rightarrow> (st', Some err)
      | (st', None) \<Rightarrow> extractZipEntries tempDir binName st' xs)"

definition extractZip ::
  "(zip_entry \<times> io_outcome) list option \<Rightarrow> string \<Rightarrow> string \<Rightarrow> (extract_error + string) \<times> fs_effect list" where
  \<comment> \<open>The first argument is what \<open>zip.OpenReader(archivePath)\<close> gives: \<open>None\<close> when the
      archive cannot be opened, otherwise the entries in the archive's order.\<close>
  "extractZip archive tempDir binName =
     (case archive of
        None \<Rightarrow> (Inl OpenArchiveFailed, [])
      | Some files \<Rightarrow>
          (case extractZipEntries tempDir binName \<lparr>binaryPath = [], effects = []\<rparr> files of
             (st, Some err) \<Rightarrow> (Inl err, effects st)
           | (st, None) \<Rightarrow>
               if binaryPath st = [] then (Inl BinaryNotFound, effects st)
               else (Inr (binaryPath st), effects st)))"

subsection \<open>Tar.gz\<close>

record tar_header =
  tName :: string
  tTypeflag :: char
  tMode :: nat
  tData :: string

definition TypeReg :: char where
  "TypeReg = CHR ''0''"

definition TypeDir :: char where
  "TypeDir = CHR ''5''"

record tar_stream =
  tEntries :: "(tar_header \<times> io_outcome) list"
  tCorrupt :: bool  \<comment> \<open>after the last header, \<open>Next\<close> returns an error instead of \<open>io.EOF\<close>\<close>

definition extractTarEntry ::
  "string \<Rightarrow> extract_state \<Rightarrow> tar_header \<times> io_outcome \<Rightarrow> extract_state \<times> extract_error option" where
  \<comment> \<open>the body of the loop of \<open>extractTarGz\<close>, after \<open>Next\<close> has returned a header\<close>
  "extractTarEntry tempDir st x =
     (case x of (header, io) \<Rightarrow>
        let path = Join [tempDir, tName header] in
        if \<not> insideTempDir tempDir path then (st, None)
        else if tTypeflag header = TypeDir then
          (let st1 = issue (MkdirAll path (tMode header)) st in
           if \<not> mkdir_ok io then (st1, Some (CreateDirFailed path)) else (st1, None))
        else if tTypeflag header = TypeReg then
          (let st1 = issue (MkdirAll (Dir path) 493) st in
           if \<not> mkdir_ok io then (st1, Some (CreateDirFailed (Dir path)))
           else
             let st2 = issue (OpenFileTrunc path (tMode header)) st1 in
             if \<not> create_ok io then (st2, Some (CreateFileFailed path))
             else
               let st3 = issue (CopyTo path (tData header)) st2 in
               if \<not> copy_ok io then (st3, Some (CopyFailed path))
               else if HasSuffix path ''/bin/ollama'' \<or> Base path = ''ollama''
                 then (st3\<lparr>binaryPath := path\<rparr>, None)
               else (st3, None))
        else (st, None))"

fun extractTarEntries ::
  "string \<Rightarrow> extract_state \<Rightarrow> (tar_header \<times> io_outcome) list \<Rightarrow> extract_state \<times> extract_error option" where
  "extractTarEntries tempDir st [] = (st, None)"
| "extractTarEntries tempDir st (x # xs) =
     (case extractTarEntry tempDir st x of
        (st', Some err) \<Rightarrow> (st', Some err)
      | (st', None) \<Rightarrow> extractTarEntries tempDir st' xs)"

definition extractTarGz ::
  "tar_stream option \<Rightarrow> string \<Rightarrow> (extract_error + string) \<times> fs_effect list" where
  \<comment> \<open>The first argument is the decompressed stream: \<open>None\<close> when the file cannot be
      opened or is not gzip data.\<close>
  "extractTarGz archive tempDir =
     (case archive of
        None \<Rightarrow> (Inl OpenArchiveFailed, [])
      | Some stream \<Rightarrow>
          (case extractTarEntries tempDir \<lparr>binaryPath = [], effects = []\<rparr> (tEntries stream) of
             (st, Some err) \<Rightarrow> (Inl err, effects st)
           | (st, None) \<Rightarrow>
               if tCorrupt stream then (Inl ReadEntryFailed, effects st)
               else if binaryPath st = [] then (Inl BinaryNotFound, effects st)
               else (Inr (binaryPath st), effects st)))"

definition tempDirName :: string where
  "tempDirName = ''ollama-extract''"

definition tempDirOf :: "string \<Rightarrow> string" where
  \<comment> \<open>the scratch directory of \<open>installOllama\<close>: \<open>filepath.Join(homeDir, tempDirName)\<close>\<close>
  "tempDirOf homeDir = Join [homeDir, tempDirName]"

text \<open>The entries that a pass would record as the binary, in archive order.\<close>

definition zipMatches :: "string \<Rightarrow> string \<Rightarrow> (zip_entry \<times> io_outcome) list \<Rightarrow> string list" where
  "zipMatches tempDir binName files =
     filter (\<lambda>p. Base p = binName)
       (map (\<lambda>x. Join [tempDir, zName (fst x)])
          (filter (\<lambda>x. insideTempDir tempDir (Join [tempDir, zName (fst x)]) \<and> \<not> zipIsDir (fst x)) files))"

definition tarMatches :: "string \<Rightarrow> (tar_header \<times> io_outcome) list \<Rightarrow> string list" where
  "tarMatches tempDir entries =
     filter (\<lambda>p. HasSuffix p ''/bin/ollama'' \<or> Base p = ''ollama'')
       (map (\<lambda>x. Join [tempDir, tName (fst x)])
          (filter (\<lambda>x. insideTempDir tempDir (Join [tempDir, tName (fst x)]) \<and> tTypeflag (fst x) = TypeReg) entries))"

definition allOk :: "io_outcome \<Rightarrow> bool" where
  "allOk io = (mkdir_ok io \<and> open_ok io \<and> create_ok io \<and> copy_ok io)"

text \<open>Every call of a trace acts on the directory or below it.\<close>

definition safeEffects :: "string \<Rightarrow> fs_effect list \<Rightarrow> bool" where
  "safeEffects d es = (\<forall>e\<in>set es. within d (effectPath e))"

text \<open>The calls that one entry causes when each of them succeeds.\<close>

definition zipEntryCalls :: "string \<Rightarrow> zip_entry \<times> io_outcome \<Rightarrow> fs_effect list" where
  "zipEntryCalls tempDir x =
     (let path = Join [tempDir, zName (fst x)] in
      if \<not> insideTempDir tempDir path then []
      else if zipIsDir (fst x) then [MkdirAll path (zMode (fst x))]
      else [MkdirAll (Dir path) 493, OpenFileTrunc path (zMode (fst x)), CopyTo path (zData (fst x))])"

definition tarEntryCalls :: "string \<Rightarrow> tar_header \<times> io_outcome \<Rightarrow> fs_effect list" where
  "tarEntryCalls tempDir x =
     (let path = Join [tempDir, tName (fst x)] in
      if \<not> insideTempDir tempDir path then []
      else if tTypeflag (fst x) = TypeDir then [MkdirAll path (tMode (fst x))]
      else if tTypeflag (fst x) = TypeReg then
        [MkdirAll (Dir path) 493, OpenFileTrunc path (tMode (fst x)), CopyTo path (tData (fst x))]
      else [])"

subsection \<open>Sample entries\<close>

definition ioOk :: io_outcome where
  "ioOk = \<lparr>mkdir_ok = True, open_ok = True, create_ok = True, copy_ok = True\<rparr>"

definition zipFile :: "string \<Rightarrow> string \<Rightarrow> zip_entry \<times> io_outcome" where
  "zipFile name bytes = (\<lparr>zName = name, zModeDir = False, zMode = 493, zData = bytes\<rparr>, ioOk)"

definition tarFile :: "string \<Rightarrow> string \<Rightarrow> tar_header \<times> io_outcome" where
  "tarFile name bytes = (\<lparr>tName = name, tTypeflag = TypeReg, tMode = 493, tData = bytes\<rparr>, ioOk)"

definition tarDir :: "string \<Rightarrow> tar_header \<times> io_outcome" where
  "tarDir name = (\<lparr>tName = name, tTypeflag = TypeDir, tMode = 493, tData = []\<rparr>, ioOk)"

definition TypeSymlink :: char where
  "TypeSymlink = CHR ''2''"

definition tarSymlink :: "string \<Rightarrow> tar_header \<times> io_outcome" where
  "tarSymlink name = (\<lparr>tName = name, tTypeflag = TypeSymlink, tMode = 511, tData = []\<rparr>, ioOk)"

section \<open>PATH updater (Unix)\<close>

text \<open>
  The shell configuration files as the updater sees them: the bytes of the regular file at
  a path (\<open>None\<close> when there is none), and how the system answers the calls on a path:
  \<open>os.Open\<close> for reading, \<open>os.OpenFile\<close> with \<open>O_APPEND|O_CREATE|O_WRONLY\<close>,
  \<open>WriteString\<close> on the opened file, and \<open>os.Stat\<close> failing with an error other than
  "does not exist".
\<close>

record config_fs =
  contents :: "string \<Rightarrow> string option"
  readDenied :: "string \<Rightarrow> bool"
  appendDenied :: "string \<Rightarrow> bool"
  writeFails :: "string \<Rightarrow> bool"
  statOther :: "string \<Rightarrow> bool"

definition newline :: char where
  "newline = CHR 0x0A"

definition MaxScanTokenSize :: nat where
  \<comment> \<open>\<open>bufio.MaxScanTokenSize\<close>, the buffer limit of a \<open>bufio.Scanner\<close>\<close>
  "MaxScanTokenSize = 64 * 1024"

fun splitLines :: "string \<Rightarrow> string list" where
  "splitLines [] = [[]]"
| "splitLines (c # cs) =
     (if c = newline then [] # splitLines cs
      else (case splitLines cs of [] \<Rightarrow> [[c]] | x # xs \<Rightarrow> (c # x) # xs))"

definition scanTokens :: "string \<Rightarrow> string list" where
  \<comment> \<open>the lines \<open>bufio.ScanLines\<close> cuts the input into, before the carriage return is
      dropped: what lies between newlines, and a last line without newline when it is not
      empty\<close>
  "scanTokens content =
     (let ls = splitLines content in if last ls = [] then butlast ls else ls)"

definition dropCR :: "string \<Rightarrow> string" where
  "dropCR l = (if l \<noteq> [] \<and> last l = CHR 0x0D then butlast l else l)"

fun scanFor :: "string list \<Rightarrow> string \<Rightarrow> bool" where
  \<comment> \<open>The loop \<open>for scanner.Scan() { if strings.Contains(scanner.Text(), pathExport)
      { return true } }\<close>. \<open>Scan\<close> returns false at the end of the input and also at a line of
      \<open>MaxScanTokenSize\<close> bytes or more, which does not fit the scanner's buffer; the loop
      ends there and the function returns false.\<close>
  "scanFor [] sub = False"
| "scanFor (l # ls) sub =
     (if length l \<ge> MaxScanTokenSize then False
      else if Contains (dropCR l) sub then True
      else scanFor ls sub)"

definition pathAlreadyExists :: "config_fs \<Rightarrow> string \<Rightarrow> string \<Rightarrow> bool" where
  "pathAlreadyExists fs filePath pathExport =
     (case contents fs filePath of
        None \<Rightarrow> False
      | Some content \<Rightarrow>
          if readDenied fs filePath then False
          else scanFor (scanTokens content) pathExport)"

definition fileExists :: "config_fs \<Rightarrow> string \<Rightarrow> bool" where
  \<comment> \<open>\<open>!os.IsNotExist(err)\<close> for the error of \<open>os.Stat\<close>\<close>
  "fileExists fs filename = (contents fs filename \<noteq> None \<or> statOther fs filename)"

datatype path_error = OpenForAppendFailed string | WriteFailed string | NoConfigFileUpdated

definition appendToFile :: "config_fs \<Rightarrow> string \<Rightarrow> string \<Rightarrow> path_error option \<times> config_fs" where
  \<comment> \<open>Opening creates the file when there is none; a failed write leaves the bytes as they
      were.\<close>
  "appendToFile fs filePath content =
     (if appendDenied fs filePath then (Some (OpenForAppendFailed filePath), fs)
      else
        let old = (case contents fs filePath of None \<Rightarrow> [] | Some c \<Rightarrow> c);
            opened = fs\<lparr>contents := (contents fs)(filePath := Some old)\<rparr>
        in if writeFails fs filePath then (Some (WriteFailed filePath), opened)
           else (None, fs\<lparr>contents := (contents fs)(filePath := Some (old @ [newline] @ content @ [newline]))\<rparr>))"

definition pathExport :: string where
  \<open>pathExport = ''export PATH="$HOME/bin:$PATH"''\<close>

definition configFiles :: "string list" where
  "configFiles = [''.zshrc'', ''.bash_profile'', ''.bashrc'', ''.profile'']"

fun appendToFirst :: "config_fs \<Rightarrow> string \<Rightarrow> string list \<Rightarrow> path_error option \<times> config_fs" where
  \<comment> \<open>the second loop of \<open>updateUnixPath\<close>\<close>
  "appendToFirst fs homeDir [] = (Some NoConfigFileUpdated, fs)"
| "appendToFirst fs homeDir (configFile # rest) =
     (let configPath = Join [homeDir, configFile] in
      if configFile = ''.zshrc'' \<and> \<not> fileExists fs configPath then appendToFirst fs homeDir rest
      else
        (case appendToFile fs configPath pathExport of
           (None, fs') \<Rightarrow> (None, fs')
         | (Some err, fs') \<Rightarrow> appendToFirst fs' homeDir rest))"

definition updateUnixPath :: "config_fs \<Rightarrow> string \<Rightarrow> path_error option \<times> config_fs" where
  "updateUnixPath fs homeDir =
     (if list_ex (\<lambda>configFile. pathAlreadyExists fs (Join [homeDir, configFile]) pathExport) configFiles
      then (None, fs)
      else appendToFirst fs homeDir configFiles)"

text \<open>The number of places at which a string occurs in another.\<close>

fun occurrences :: "string \<Rightarrow> string \<Rightarrow> nat" where
  "occurrences [] sub = (if sub = [] then 1 else 0)"
| "occurrences (c # cs) sub = (if prefix sub (c # cs) then 1 else 0) + occurrences cs sub"

definition exportLines :: "config_fs \<Rightarrow> string \<Rightarrow> nat" where
  \<comment> \<open>how often the export line occurs in the file at a path\<close>
  "exportLines fs p = (case contents fs p of None \<Rightarrow> 0 | Some c \<Rightarrow> occurrences c pathExport)"

definition candidatePaths :: "string \<Rightarrow> string list" where
  "candidatePaths homeDir = map (\<lambda>configFile. Join [homeDir, configFile]) configFiles"

definition shortLines :: "config_fs \<Rightarrow> string \<Rightarrow> bool" where
  \<comment> \<open>the file at the path, if there is one, has no line of \<open>MaxScanTokenSize\<close> bytes or
      more\<close>
  "shortLines fs p =
     (case contents fs p of None \<Rightarrow> True
      | Some c \<Rightarrow> list_all (\<lambda>l. length l < MaxScanTokenSize) (scanTokens c))"

definition scannable :: "config_fs \<Rightarrow> string \<Rightarrow> bool" where
  \<comment> \<open>Opening the path for reading is not refused, whether a file is there now or is
      created there later, and the file at the path, if there is one, has no line of
      \<open>MaxScanTokenSize\<close> bytes or more.\<close>
  "scannable fs p = (\<not> readDenied fs p \<and> shortLines fs p)"

definition sameConfig :: "config_fs \<Rightarrow> config_fs \<Rightarrow> bool" where
  \<comment> \<open>the second state differs from the first at most by files created empty\<close>
  "sameConfig fs fs' =
     (readDenied fs' = readDenied fs \<and> appendDenied fs' = appendDenied fs \<and>
      writeFails fs' = writeFails fs \<and> statOther fs' = statOther fs \<and>
      (\<forall>q. contents fs' q = contents fs q \<or> (contents fs q = None \<and> contents fs' q = Some [])))"

definition withLine :: "config_fs \<Rightarrow> string \<Rightarrow> config_fs" where
  \<comment> \<open>the state after the export line, between two newlines, was appended to the file at
      a path\<close>
  "withLine fs p =
     fs\<lparr>contents := (contents fs)(p := Some ((case contents fs p of None \<Rightarrow> [] | Some c \<Rightarrow> c) @
                                             [newline] @ pathExport @ [newline]))\<rparr>"

subsection \<open>Sample states\<close>

definition plainFs :: "(string \<Rightarrow> string option) \<Rightarrow> config_fs" where
  \<comment> \<open>the given files, with every call answered without error\<close>
  "plainFs f = \<lparr>contents = f, readDenied = (\<lambda>p. False), appendDenied = (\<lambda>p. False),
                writeFails = (\<lambda>p. False), statOther = (\<lambda>p. False)\<rparr>"

definition bashrcOnly :: config_fs where
  "bashrcOnly = plainFs (\<lambda>p. if p = ''/home/u/.bashrc'' then Some ''# rc'' else None)"

definition zshrcWithLine :: config_fs where
  "zshrcWithLine =
     plainFs (\<lambda>p. if p = ''/home/u/.zshrc'' then Some (''# rc'' @ [newline] @ pathExport @ [newline]) else None)"

definition zshrcWriteOnly :: config_fs where
  \<comment> \<open>a \<open>.zshrc\<close> that holds the export line and may be written but not read\<close>
  "zshrcWriteOnly = zshrcWithLine\<lparr>readDenied := (\<lambda>p. p = ''/home/u/.zshrc'')\<rparr>"

definition zshrcLongLine :: config_fs where
  \<comment> \<open>a \<open>.zshrc\<close> whose first line has \<open>MaxScanTokenSize\<close> bytes and whose second line is
      the export line\<close>
  "zshrcLongLine =
     plainFs (\<lambda>p. if p = ''/home/u/.zshrc''
                   then Some (replicate MaxScanTokenSize (CHR ''a'') @ [newline] @ pathExport @ [newline])
                   else None)"

section \<open>Release fetcher, downloader and installer orchestrator\<close>

text \<open>
  The environment of one run: the host, and how the network and the operating system answer
  each call the installer makes. Paths are computed with the Unix rules above.
\<close>

datatype http_outcome = BadRequest | TransportError | Status nat

datatype copy_outcome = CopyOk | OpenSourceFailed | CreateDestFailed | CopyBytesFailed

record world =
  hostOS :: string  \<comment> \<open>\<open>runtime.GOOS\<close>\<close>
  homeDirResult :: "string option"  \<comment> \<open>\<open>os.UserHomeDir\<close>, \<open>None\<close> for an error\<close>
  apiOutcome :: http_outcome  \<comment> \<open>the request to the release API\<close>
  apiTagName :: "string option"  \<comment> \<open>\<open>tag_name\<close> of the decoded body, \<open>None\<close> when decoding fails\<close>
  httpOutcome :: http_outcome  \<comment> \<open>the download request\<close>
  createOk :: bool  \<comment> \<open>\<open>os.Create\<close> of the temporary archive\<close>
  saveOk :: bool  \<comment> \<open>\<open>io.Copy\<close> of the body into it\<close>
  mkdirBinOk :: bool
  removeTempDirOk :: bool
  mkdirTempDirOk :: bool
  downloadedZip :: "(zip_entry \<times> io_outcome) list option"
  downloadedTar :: "tar_stream option"
  copyBinary :: copy_outcome
  chmodOk :: bool
  envPATH :: string
  powershellOk :: bool
  configFs :: config_fs

datatype fetch_error = FetchRequestNotCreated | FetchFailed | FetchBadStatus nat | FetchDecodeFailed

datatype download_error = RequestNotCreated | RequestFailed | BadStatus nat | CreateFailed | SaveFailed

datatype extract_install_error =
    RemoveTempDirFailed
  | CreateTempDirFailed
  | ExtractionFailed extract_error
  | CopyBinaryFailed copy_outcome
  | ChmodFailed

datatype path_update_error = UnixPathError path_error | WindowsPathError

datatype install_error =
    HomeDirFailed
  | DownloadFailed download_error
  | CreateBinDirFailed
  | ExtractInstallFailed extract_install_error

datatype message =
    DetectedPlatform string
  | ErrorGettingVersion fetch_error
  | LatestVersion string
  | DownloadURL string
  | InstallationFailed install_error
  | WarningPathUpdate path_update_error
  | UsingWindowsLocation
  | InstalledTo string
  | RestartTerminal

text \<open>
  The calls a run issues, in order. The messages are those of \<open>main\<close> and
  \<open>installOllama\<close>; the progress lines printed inside the stages are left out.
\<close>

datatype event =
    ApiGet
  | HttpGet string
  | CreateFile string
  | SaveBody string
  | Remove string
  | RemoveAll string
  | Mkdir string nat
  | Extract fs_effect
  | CopyFile string string
  | Chmod string nat
  | UpdateConfigFiles
  | PowerShell
  | Print message

definition executableMode :: nat where
  "executableMode = 493"

definition httpOK :: nat where
  "httpOK = 200"

definition getLatestOllamaVersion :: "world \<Rightarrow> (fetch_error + string) \<times> event list" where
  "getLatestOllamaVersion w =
     (case apiOutcome w of
        BadRequest \<Rightarrow> (Inl FetchRequestNotCreated, [])
      | TransportError \<Rightarrow> (Inl FetchFailed, [ApiGet])
      | Status code \<Rightarrow>
          if code \<noteq> httpOK then (Inl (FetchBadStatus code), [ApiGet])
          else (case apiTagName w of
                  None \<Rightarrow> (Inl FetchDecodeFailed, [ApiGet])
                | Some tag \<Rightarrow> (Inr tag, [ApiGet])))"

fun Sprintf_s :: "string \<Rightarrow> string \<Rightarrow> string" where
  \<comment> \<open>\<open>fmt.Sprintf(template, arg)\<close> for a template with one \<open>%s\<close> and no other verb\<close>
  "Sprintf_s [] arg = []"
| "Sprintf_s [c] arg = [c]"
| "Sprintf_s (c # d # cs) arg =
     (if c = CHR ''%'' \<and> d = CHR ''s'' then arg @ cs else c # Sprintf_s (d # cs) arg)"

definition getDownloadURL :: "string \<Rightarrow> string \<Rightarrow> string" where
  "getDownloadURL goos version = Sprintf_s (downloadURLTemplate (getPlatformConfig goos)) version"

definition downloadFile :: "world \<Rightarrow> string \<Rightarrow> string \<Rightarrow> download_error option \<times> event list" where
  "downloadFile w url filePath =
     (case httpOutcome w of
        BadRequest \<Rightarrow> (Some RequestNotCreated, [])
      | TransportError \<Rightarrow> (Some RequestFailed, [HttpGet url])
      | Status code \<Rightarrow>
          if code \<noteq> httpOK then (Some (BadStatus code), [HttpGet url])
          else if \<not> createOk w then (Some CreateFailed, [HttpGet url, CreateFile filePath])
          else if \<not> saveOk w then (Some SaveFailed, [HttpGet url, CreateFile filePath, SaveBody filePath])
          else (None, [HttpGet url, CreateFile filePath, SaveBody filePath]))"

definition copyFile :: "world \<Rightarrow> string \<Rightarrow> string \<Rightarrow> copy_outcome \<times> event list" where
  "copyFile w src dst = (copyBinary w, [CopyFile src dst])"

definition extractAndInstall ::
  "world \<Rightarrow> string \<Rightarrow> string \<Rightarrow> string \<Rightarrow> PlatformConfig \<Rightarrow> extract_install_error option \<times> event list" where
  \<comment> \<open>The archive at \<open>archivePath\<close> is the downloaded one; its content is the world's.\<close>
  "extractAndInstall w archivePath tempDir finalPath config =
     (if \<not> removeTempDirOk w then (Some RemoveTempDirFailed, [RemoveAll tempDir])
      else if \<not> mkdirTempDirOk w then
        (Some CreateTempDirFailed, [RemoveAll tempDir, Mkdir tempDir executableMode])
      else
        let (res, effs) =
              (if HasSuffix (tempFileName config) ''.zip''
               then extractZip (downloadedZip w) tempDir (binaryName config)
               else extractTarGz (downloadedTar w) tempDir);
            evs = [RemoveAll tempDir, Mkdir tempDir executableMode] @ map Extract effs
        in (case res of
              Inl err \<Rightarrow> (Some (ExtractionFailed err), evs)
            | Inr sourcePath \<Rightarrow>
                (case copyFile w sourcePath finalPath of
                   (CopyOk, cevs) \<Rightarrow>
                     if \<not> chmodOk w then (Some ChmodFailed, evs @ cevs @ [Chmod finalPath executableMode])
                     else (None, evs @ cevs @ [Chmod finalPath executableMode])
                 | (failure, cevs) \<Rightarrow> (Some (CopyBinaryFailed failure), evs @ cevs))))"

definition updateWindowsPath :: "world \<Rightarrow> string \<Rightarrow> path_update_error option \<times> event list" where
  "updateWindowsPath w homeDir =
     (let binDir = Join [homeDir, ''bin''] in
      if Contains (envPATH w) binDir then (None, [])
      else if \<not> powershellOk w then (Some WindowsPathError, [PowerShell])
      else (None, [PowerShell]))"

definition updatePath :: "world \<Rightarrow> string \<Rightarrow> path_update_error option \<times> event list \<times> config_fs" where
  "updatePath w homeDir =
     (if hostOS w = ''windows'' then
        (case updateWindowsPath w homeDir of (r, evs) \<Rightarrow> (r, evs, configFs w))
      else
        (case updateUnixPath (configFs w) homeDir of
           (None, fs) \<Rightarrow> (None, [UpdateConfigFiles], fs)
         | (Some err, fs) \<Rightarrow> (Some (UnixPathError err), [UpdateConfigFiles], fs)))"

definition binDirOf :: "world \<Rightarrow> string \<Rightarrow> string" where
  "binDirOf w homeDir =
     (if hostOS w = ''windows'' then Join [homeDir, ''AppData'', ''Local'', ''Programs'', ''Ollama'']
      else Join [homeDir, ''bin''])"

definition finalPathOf :: "world \<Rightarrow> string \<Rightarrow> string" where
  "finalPathOf w homeDir = Join [binDirOf w homeDir, binaryName (getPlatformConfig (hostOS w))]"

definition tempFileOf :: "world \<Rightarrow> string \<Rightarrow> string" where
  "tempFileOf w homeDir = Join [homeDir, tempFileName (getPlatformConfig (hostOS w))]"

definition installSteps :: "world \<Rightarrow> string \<Rightarrow> install_error option \<times> event list \<times> config_fs" where
  \<comment> \<open>\<open>installOllama\<close> from the creation of the bin directory to its last line, that is,
      after both deferred clean-ups are registered\<close>
  "installSteps w homeDir =
     (let config = getPlatformConfig (hostOS w);
          binDir = binDirOf w homeDir;
          finalPath = finalPathOf w homeDir
      in if \<not> mkdirBinOk w then (Some CreateBinDirFailed, [Mkdir binDir executableMode], configFs w)
         else
           (case extractAndInstall w (tempFileOf w homeDir) (tempDirOf homeDir) finalPath config of
              (Some err, evs) \<Rightarrow>
                (Some (ExtractInstallFailed err), Mkdir binDir executableMode # evs, configFs w)
            | (None, evs) \<Rightarrow>
                let (pevs, fs) =
                      (if hostOS w \<noteq> ''windows'' then
                         (case updatePath w homeDir of
                            (Some err, uevs, fs) \<Rightarrow> (uevs @ [Print (WarningPathUpdate err)], fs)
                          | (None, uevs, fs) \<Rightarrow> (uevs, fs))
                       else ([Print UsingWindowsLocation], configFs w))
                in (None,
                    Mkdir binDir executableMode # evs @ pevs @
                      [Print (InstalledTo finalPath), Print RestartTerminal],
                    fs)))"

definition installOllama :: "world \<Rightarrow> string \<Rightarrow> install_error option \<times> event list \<times> config_fs" where
  \<comment> \<open>The two deferred calls run on every return after their registration, the later one
      first: \<open>os.RemoveAll(tempDir)\<close>, registered after the download, then
      \<open>os.Remove(tempFile)\<close>, registered before it.\<close>
  "installOllama w url =
     (case homeDirResult w of
        None \<Rightarrow> (Some HomeDirFailed, [], configFs w)
      | Some homeDir \<Rightarrow>
          let tempFile = tempFileOf w homeDir;
              (r, evs, fs) =
                (case downloadFile w url tempFile of
                   (Some err, devs) \<Rightarrow> (Some (DownloadFailed err), devs, configFs w)
                 | (None, devs) \<Rightarrow>
                     (case installSteps w homeDir of
                        (r, sevs, fs) \<Rightarrow> (r, devs @ sevs @ [RemoveAll (tempDirOf homeDir)], fs)))
          in (r, evs @ [Remove tempFile], fs))"

definition main :: "world \<Rightarrow> nat \<times> event list \<times> config_fs" where
  \<comment> \<open>the exit status of the process, the calls it issued and the configuration files it
      leaves\<close>
  "main w =
     (case getLatestOllamaVersion w of
        (Inl err, aevs) \<Rightarrow>
          (1, Print (DetectedPlatform (hostOS w)) # aevs @ [Print (ErrorGettingVersion err)], configFs w)
      | (Inr version, aevs) \<Rightarrow>
          let url = getDownloadURL (hostOS w) version;
              pre = Print (DetectedPlatform (hostOS w)) # aevs @
                      [Print (LatestVersion version), Print (DownloadURL url)]
          in (case installOllama w url of
                (Some err, evs, fs) \<Rightarrow> (1, pre @ evs @ [Print (InstallationFailed err)], fs)
              | (None, evs, fs) \<Rightarrow> (0, pre @ evs, fs)))"

subsection \<open>Sample worlds\<close>

definition linuxWorld :: world where
  \<comment> \<open>a Linux host on which every call succeeds; the release archive holds \<open>bin/ollama\<close>\<close>
  "linuxWorld =
     \<lparr> hostOS = ''linux'', homeDirResult = Some ''/home/u'',
       apiOutcome = Status 200, apiTagName = Some ''v0.5.1'',
       httpOutcome = Status 200, createOk = True, saveOk = True,
       mkdirBinOk = True, removeTempDirOk = True, mkdirTempDirOk = True,
       downloadedZip = None,
       downloadedTar = Some \<lparr>tEntries = [tarDir ''bin'', tarFile ''bin/ollama'' ''ELF''], tCorrupt = False\<rparr>,
       copyBinary = CopyOk, chmodOk = True,
       envPATH = ''/usr/bin:/bin'', powershellOk = False,
       configFs = bashrcOnly \<rparr>"

definition readOnlyHome :: config_fs where
  \<comment> \<open>no configuration file holds the export line and none can be opened for appending\<close>
  "readOnlyHome = bashrcOnly\<lparr>appendDenied := (\<lambda>p. True)\<rparr>"

section \<open>Invariants of cleaned paths\<close>

text \<open>
  The output buffer of \<open>Clean\<close> only ever holds a block of \<open>..\<close> elements (none when the
  path is rooted) followed by elements that are neither empty, \<open>.\<close> nor \<open>..\<close> and
  contain no separator. \<open>cleanStack\<close> states this for the reversed buffer, \<open>cleanList\<close>
  for the buffer in path order.
\<close>

definition properElem :: "string \<Rightarrow> bool" where
  "properElem e = (e \<noteq> [] \<and> e \<noteq> ''.'' \<and> e \<noteq> ''..'' \<and> Separator \<notin> set e)"

definition cleanStack :: "bool \<Rightarrow> string list \<Rightarrow> bool" where
  "cleanStack r out = (\<exists>n rest. out = rest @ replicate n ''..'' \<and> (\<forall>e\<in>set rest. properElem e) \<and> (r \<longrightarrow> n = 0))"

definition cleanList :: "bool \<Rightarrow> string list \<Rightarrow> bool" where
  "cleanList r es = cleanStack r (rev es)"

text \<open>
  A target directory whose last resolved element is an ordinary name: not empty, not the
  root, and not a chain of \<open>..\<close>.
\<close>

definition properTarget :: "string \<Rightarrow> bool" where
  "properTarget d = (snd (resolve d) \<noteq> [] \<and> last (snd (resolve d)) \<noteq> ''..'')"

section \<open>Properties of the platform resolver\<close>

lemma HasSuffix_rev: "HasSuffix s suf = prefix (rev suf) (rev s)"
  by (simp add: HasSuffix_def suffix_to_prefix)

lemma getPlatformConfig_cases:
  "goos = ''windows'' \<or> goos = ''darwin'' \<or>
   getPlatformConfig goos = getPlatformConfig ''linux''"
  by (simp add: getPlatformConfig_def)

text \<open>
  Claim C4, as stated, fails: the recognised platforms do not each have an archive format
  and an install path of their own. Windows and darwin have the same archive format, and
  linux and darwin the same install path.
\<close>

theorem platforms_share_format_and_install_path:
  "''windows'' \<noteq> ''darwin'' \<and>
   archiveFormat (getPlatformConfig ''windows'') = archiveFormat (getPlatformConfig ''darwin'') \<and>
   ''linux'' \<noteq> ''darwin'' \<and>
   installPath (getPlatformConfig ''linux'') = installPath (getPlatformConfig ''darwin'')"
  by (simp add: getPlatformConfig_def archiveFormat_def HasSuffix_rev)

text \<open>
  Claim C4, amended. The platform resolver has no error result: for every operating-system
  identifier it returns one of the configurations of windows, linux and darwin. These three
  differ pairwise in the archive they download and in the combination of archive format and
  install path; the format alone is zip for windows and darwin and tar.gz for linux, and the
  install path alone is the same for linux and darwin. Every other identifier gets the
  configuration of linux.
\<close>

theorem getPlatformConfig_total_with_fallback:
  "getPlatformConfig goos \<in> set (map getPlatformConfig [''windows'', ''linux'', ''darwin'']) \<and>
   (goos \<noteq> ''windows'' \<and> goos \<noteq> ''linux'' \<and> goos \<noteq> ''darwin'' \<longrightarrow>
      getPlatformConfig goos = getPlatformConfig ''linux'') \<and>
   distinct (map (\<lambda>g. (archiveFormat (getPlatformConfig g), installPath (getPlatformConfig g)))
               [''windows'', ''linux'', ''darwin'']) \<and>
   distinct (map (\<lambda>g. downloadURLTemplate (getPlatformConfig g))
               [''windows'', ''linux'', ''darwin'']) \<and>
   map (\<lambda>g. archiveFormat (getPlatformConfig g)) [''windows'', ''linux'', ''darwin''] =
     [ZipFormat, TarGzFormat, ZipFormat] \<and>
   map (\<lambda>g. installPath (getPlatformConfig g)) [''windows'', ''linux'', ''darwin''] =
     [''~/AppData/Local/Programs/Ollama/ollama.exe'', ''~/bin/ollama'', ''~/bin/ollama'']"
proof -
  have m: "getPlatformConfig goos \<in> set (map getPlatformConfig [''windows'', ''linux'', ''darwin''])"
    using getPlatformConfig_cases[of goos] by auto
  have f: "goos \<noteq> ''windows'' \<and> goos \<noteq> ''linux'' \<and> goos \<noteq> ''darwin'' \<longrightarrow>
      getPlatformConfig goos = getPlatformConfig ''linux''"
    using getPlatformConfig_cases[of goos] by blast
  have d: "distinct (map (\<lambda>g. (archiveFormat (getPlatformConfig g), installPath (getPlatformConfig g)))
               [''windows'', ''linux'', ''darwin''])"
    "distinct (map (\<lambda>g. downloadURLTemplate (getPlatformConfig g))
               [''windows'', ''linux'', ''darwin''])"
    "map (\<lambda>g. archiveFormat (getPlatformConfig g)) [''windows'', ''linux'', ''darwin''] =
     [ZipFormat, TarGzFormat, ZipFormat]"
    "map (\<lambda>g. installPath (getPlatformConfig g)) [''windows'', ''linux'', ''darwin''] =
     [''~/AppData/Local/Programs/Ollama/ollama.exe'', ''~/bin/ollama'', ''~/bin/ollama'']"
    by (simp_all add: getPlatformConfig_def archiveFormat_def HasSuffix_rev)
  show ?thesis by (intro conjI m f d)
qed

theorem getPlatformConfig_total_with_fallback_witness:
  "''freebsd'' \<noteq> ''windows'' \<and> ''freebsd'' \<noteq> ''linux'' \<and> ''freebsd'' \<noteq> ''darwin'' \<and>
   getPlatformConfig ''freebsd'' = getPlatformConfig ''linux'' \<and>
   archiveFormat (getPlatformConfig ''freebsd'') = TarGzFormat \<and>
   installPath (getPlatformConfig ''freebsd'') = ''~/bin/ollama''"
proof -
  have n: "''freebsd'' \<noteq> ''windows'' \<and> ''freebsd'' \<noteq> ''linux'' \<and> ''freebsd'' \<noteq> ''darwin''"
    by simp
  have e: "getPlatformConfig ''freebsd'' = getPlatformConfig ''linux''"
    using getPlatformConfig_total_with_fallback[of "''freebsd''", THEN conjunct2, THEN conjunct1, THEN mp, OF n] .
  have l: "archiveFormat (getPlatformConfig ''linux'') = TarGzFormat"
    "installPath (getPlatformConfig ''linux'') = ''~/bin/ollama''"
    by (simp_all add: getPlatformConfig_def archiveFormat_def HasSuffix_rev)
  show ?thesis using n e l by simp
qed

text \<open>
  Claim C5. For every operating-system identifier (the three recognised ones and the
  fallback), the binary name of the resolved configuration is the final element of its
  install path.
\<close>

theorem binaryName_is_base_of_installPath:
  "Base (installPath (getPlatformConfig goos)) = binaryName (getPlatformConfig goos)"
  by (simp add: getPlatformConfig_def Base_def Separator_def)

section \<open>Lemmas on splitting, joining and cleaning paths\<close>

declare Join.simps [simp del]

lemma splitSep_nonempty [simp]: "splitSep s \<noteq> []"
  by (induction s) (auto split: list.splits)

lemma splitSep_no_sep: "e \<in> set (splitSep s) \<Longrightarrow> Separator \<notin> set e"
  by (induction s arbitrary: e) (auto split: list.splits if_splits)

lemma splitSep_append_sep: "splitSep (a @ Separator # b) = splitSep a @ splitSep b"
proof (induction a)
  case Nil
  show ?case by simp
next
  case (Cons c a)
  then show ?case by (cases "splitSep a") auto
qed

lemma splitSep_single: "Separator \<notin> set e \<Longrightarrow> splitSep e = [e]"
  by (induction e) auto

lemma splitSep_joinSep:
  "es \<noteq> [] \<Longrightarrow> \<forall>e\<in>set es. Separator \<notin> set e \<Longrightarrow> splitSep (joinSep es) = es"
proof (induction es rule: joinSep.induct)
  case 1
  then show ?case by simp
next
  case (2 x)
  then show ?case by (simp add: splitSep_single)
next
  case (3 x y ys)
  then show ?case by (simp add: splitSep_append_sep splitSep_single)
qed

lemma joinSep_append:
  "as \<noteq> [] \<Longrightarrow> bs \<noteq> [] \<Longrightarrow> joinSep (as @ bs) = joinSep as @ Separator # joinSep bs"
proof (induction as rule: joinSep.induct)
  case 1
  then show ?case by simp
next
  case (2 x)
  then show ?case by (cases bs) auto
next
  case (3 x y ys)
  then show ?case by simp
qed

lemma cleanStack_Nil [simp]: "cleanStack r []"
  by (simp add: cleanStack_def)

lemma cleanStack_step:
  assumes "cleanStack r out" "Separator \<notin> set e"
  shows "cleanStack r (cleanElem r out e)"
proof -
  from assms(1) obtain n rest where o: "out = rest @ replicate n ''..''"
    and p: "\<forall>e\<in>set rest. properElem e" and rn: "r \<longrightarrow> n = 0"
    by (auto simp: cleanStack_def)
  show ?thesis
  proof (cases "e = [] \<or> e = ''.''")
    case True
    then show ?thesis using assms(1) by (auto simp: cleanElem_def)
  next
    case False
    note ne = this
    show ?thesis
    proof (cases "e = ''..''")
      case True
      show ?thesis
      proof (cases rest)
        case Nil
        then have "out = replicate n ''..''" using o by simp
        then have "cleanElem r out e = (if r then out else replicate (Suc n) ''..'')"
          using True rn by (cases n) (auto simp: cleanElem_def)
        then show ?thesis using \<open>out = replicate n ''..''\<close> rn
          by (auto simp: cleanStack_def intro!: exI[of _ "Suc n"] exI[of _ "[]"])
      next
        case (Cons a rest')
        then have "properElem a" using p by simp
        then have "a \<noteq> ''..''" by (simp add: properElem_def)
        then have "cleanElem r out e = rest' @ replicate n ''..''"
          using True o Cons by (simp add: cleanElem_def)
        then show ?thesis using p rn Cons by (auto simp: cleanStack_def)
      qed
    next
      case False
      then have "properElem e" using ne assms(2) by (simp add: properElem_def)
      moreover have "cleanElem r out e = (e # rest) @ replicate n ''..''"
        using False ne o by (simp add: cleanElem_def)
      ultimately show ?thesis using p rn unfolding cleanStack_def
        by (intro exI[of _ n] exI[of _ "e # rest"]) auto
    qed
  qed
qed

lemma cleanStack_foldl:
  "cleanStack r out \<Longrightarrow> \<forall>e\<in>set es. Separator \<notin> set e \<Longrightarrow> cleanStack r (foldl (cleanElem r) out es)"
  by (induction es arbitrary: out) (auto simp: cleanStack_step)

lemma cleanList_cleanElems: "cleanList r (cleanElems r (splitSep p))"
  by (simp add: cleanList_def cleanElems_def cleanStack_foldl splitSep_no_sep)

lemma cleanList_alt:
  "cleanList r es \<longleftrightarrow> (\<exists>n rest. es = replicate n ''..'' @ rest \<and> (\<forall>e\<in>set rest. properElem e) \<and> (r \<longrightarrow> n = 0))"
proof
  assume "cleanList r es"
  then obtain n rest where "rev es = rest @ replicate n ''..''" "\<forall>e\<in>set rest. properElem e" "r \<longrightarrow> n = 0"
    by (auto simp: cleanList_def cleanStack_def)
  then have "es = replicate n ''..'' @ rev rest" by (metis rev_append rev_replicate rev_rev_ident)
  then show "\<exists>n rest. es = replicate n ''..'' @ rest \<and> (\<forall>e\<in>set rest. properElem e) \<and> (r \<longrightarrow> n = 0)"
    using \<open>\<forall>e\<in>set rest. properElem e\<close> \<open>r \<longrightarrow> n = 0\<close> by (intro exI[of _ n] exI[of _ "rev rest"]) auto
next
  assume "\<exists>n rest. es = replicate n ''..'' @ rest \<and> (\<forall>e\<in>set rest. properElem e) \<and> (r \<longrightarrow> n = 0)"
  then obtain n rest where "es = replicate n ''..'' @ rest" "\<forall>e\<in>set rest. properElem e" "r \<longrightarrow> n = 0" by auto
  then show "cleanList r es" unfolding cleanList_def cleanStack_def
    by (intro exI[of _ n] exI[of _ "rev rest"]) auto
qed

text \<open>Cleaning a clean list changes nothing.\<close>

lemma foldl_cleanElem_clean:
  "cleanStack r (rev es @ out) \<Longrightarrow> foldl (cleanElem r) out es = rev es @ out"
proof (induction es arbitrary: out)
  case Nil
  then show ?case by simp
next
  case (Cons e es)
  from Cons.prems have cs: "cleanStack r (rev es @ e # out)" by simp
  then obtain n rest where o: "rev es @ e # out = rest @ replicate n ''..''"
    and p: "\<forall>e\<in>set rest. properElem e" and rn: "r \<longrightarrow> n = 0"
    by (auto simp: cleanStack_def)
  have elems: "\<forall>x\<in>set (e # out). properElem x \<or> x = ''..''"
  proof
    fix x assume "x \<in> set (e # out)"
    then have "x \<in> set (rest @ replicate n ''..'')" using o by (metis Un_iff set_append)
    then show "properElem x \<or> x = ''..''" using p by auto
  qed
  have step: "cleanElem r out e = e # out"
  proof (cases "e = ''..''")
    case False
    then have "properElem e" using elems by auto
    then show ?thesis using False by (auto simp: cleanElem_def properElem_def)
  next
    case True
    have "\<forall>x\<in>set out. x = ''..''"
    proof -
      have "suffix (e # out) (rest @ replicate n ''..'')" using o by (metis suffixI)
      then have "suffix (e # out) (replicate n ''..'') \<or> (\<exists>zs. e # out = zs @ replicate n ''..'' \<and> suffix zs rest)"
        by (auto simp: suffix_append)
      then show ?thesis
      proof
        assume "suffix (e # out) (replicate n ''..'')"
        then have "set (e # out) \<subseteq> set (replicate n ''..'')" by (rule set_mono_suffix)
        then show ?thesis by auto
      next
        assume "\<exists>zs. e # out = zs @ replicate n ''..'' \<and> suffix zs rest"
        then obtain zs where z: "e # out = zs @ replicate n ''..''" "suffix zs rest" by auto
        have "zs = []"
        proof (cases zs)
          case Nil then show ?thesis .
        next
          case (Cons z zs')
          then have "z = e" using z(1) by simp
          moreover have "z \<in> set rest" using z(2) Cons by (meson list.set_intros(1) set_mono_suffix subsetD)
          ultimately have "properElem ''..''" using p True by auto
          then show ?thesis by (simp add: properElem_def)
        qed
        then show ?thesis using z(1) by (metis append_Nil in_set_replicate set_subset_Cons subsetD)
      qed
    qed
    moreover have "\<not> r"
    proof
      assume r
      then have "n = 0" using rn by simp
      then have "e \<in> set rest" using o by (metis append_Nil2 in_set_conv_decomp replicate_0)
      then show False using p True by (auto simp: properElem_def)
    qed
    ultimately show ?thesis using True by (cases out) (auto simp: cleanElem_def)
  qed
  have "foldl (cleanElem r) out (e # es) = foldl (cleanElem r) (e # out) es" using step by simp
  also have "\<dots> = rev es @ e # out" using Cons.IH[of "e # out"] cs by simp
  finally show ?case by simp
qed

lemma cleanElems_clean: "cleanList r es \<Longrightarrow> cleanElems r es = es"
  using foldl_cleanElem_clean[of r es "[]"] by (simp add: cleanElems_def cleanList_def)

lemma cleanList_no_sep:
  assumes "cleanList r es" "e \<in> set es"
  shows "Separator \<notin> set e \<and> e \<noteq> [] \<and> e \<noteq> ''.''"
proof -
  from assms(1) obtain n rest where es: "es = replicate n ''..'' @ rest"
    and p: "\<forall>e\<in>set rest. properElem e"
    unfolding cleanList_alt by blast
  from assms(2) es have "e = ''..'' \<or> e \<in> set rest" by auto
  then show ?thesis
  proof
    assume "e = ''..''"
    then show ?thesis by (simp add: Separator_def)
  next
    assume "e \<in> set rest"
    then have "properElem e" using p by simp
    then show ?thesis by (simp add: properElem_def)
  qed
qed

lemma joinSep_hd:
  "es \<noteq> [] \<Longrightarrow> hd es \<noteq> [] \<Longrightarrow> joinSep es \<noteq> [] \<and> hd (joinSep es) = hd (hd es)"
  by (induction es rule: joinSep.induct) auto

lemma joinSep_clean_hd:
  assumes "cleanList r es" "es \<noteq> []"
  shows "joinSep es \<noteq> [] \<and> hd (joinSep es) \<noteq> Separator"
proof -
  obtain e es' where es: "es = e # es'" using assms(2) by (cases es) auto
  then have e: "e \<noteq> []" "Separator \<notin> set e" using assms(1) cleanList_no_sep[of r es e] by auto
  then have "joinSep es \<noteq> [] \<and> hd (joinSep es) = hd e" using joinSep_hd[of es] es by simp
  moreover have "hd e \<noteq> Separator" using e by (cases e) auto
  ultimately show ?thesis by simp
qed

lemma rooted_render: "cleanList r es \<Longrightarrow> rooted (render r es) = r"
proof (cases r)
  case True
  then show ?thesis by (simp add: rooted_def render_def)
next
  case False
  assume c: "cleanList r es"
  show ?thesis
  proof (cases "es = []")
    case True
    then show ?thesis using False by (simp add: rooted_def render_def Separator_def)
  next
    case ne: False
    then show ?thesis using joinSep_clean_hd[OF c ne] False
      by (cases "joinSep es") (auto simp: rooted_def render_def)
  qed
qed

lemma render_clean_nonempty: "cleanList r es \<Longrightarrow> render r es \<noteq> []"
  using joinSep_clean_hd[of r es] by (cases "es = []") (auto simp: render_def)

lemma cleanElems_Nil_Cons: "cleanElems r ([] # es) = cleanElems r es"
  by (simp add: cleanElems_def cleanElem_def)

lemma cleanElems_render:
  assumes "cleanList r es"
  shows "cleanElems r (splitSep (render r es)) = es"
proof (cases "es = []")
  case True
  have "cleanElems True [[], []] = []" "cleanElems False [''.''] = []"
    by (simp_all add: cleanElems_def cleanElem_def)
  then show ?thesis using True
    by (cases r) (simp_all add: render_def Separator_def)
next
  case False
  have ns: "\<forall>e\<in>set es. Separator \<notin> set e" using assms cleanList_no_sep by blast
  have s: "splitSep (joinSep es) = es" using splitSep_joinSep[OF False ns] .
  show ?thesis
  proof (cases r)
    case True
    then have "splitSep (render r es) = [] # es" using s by (simp add: render_def)
    then show ?thesis using cleanElems_clean[OF assms] by (simp add: cleanElems_Nil_Cons)
  next
    case r: False
    then have "splitSep (render r es) = es" using s False by (simp add: render_def)
    then show ?thesis using cleanElems_clean[OF assms] by simp
  qed
qed

lemma resolve_render: "cleanList r es \<Longrightarrow> resolve (render r es) = (r, es)"
  by (simp add: resolve_def rooted_render cleanElems_render)

lemma cleanElems_empty: "cleanElems r [[]] = []"
  by (simp add: cleanElems_def cleanElem_def)

lemma resolve_Nil: "resolve [] = (False, [])"
  by (simp add: resolve_def rooted_def cleanElems_empty)

lemma Clean_render: "Clean p = render (fst (resolve p)) (snd (resolve p))"
proof (cases "p = []")
  case True
  then show ?thesis by (simp add: Clean_def resolve_Nil render_def)
next
  case False
  then show ?thesis by (simp add: Clean_def resolve_def)
qed

lemma cleanList_resolve: "cleanList (fst (resolve p)) (snd (resolve p))"
  by (simp add: resolve_def cleanList_cleanElems)

lemma resolve_Clean: "resolve (Clean p) = resolve p"
  using resolve_render[OF cleanList_resolve[of p]] by (simp add: Clean_render)

lemma Clean_idem: "Clean (Clean p) = Clean p"
  by (simp add: Clean_render[of "Clean p"] resolve_Clean) (simp add: Clean_render)

text \<open>The string-prefix test on rendered paths against the element-wise prefix.\<close>

lemma render_prefix_imp:
  assumes ca: "cleanList ra A" and cb: "cleanList rb B"
    and pre: "prefix (render ra A @ [Separator]) (render rb B)"
  shows "ra = rb \<and> strict_prefix A B"
proof -
  from pre obtain u where t: "render rb B = render ra A @ Separator # u"
    by (auto simp: prefix_def)
  have nsB: "\<forall>e\<in>set B. Separator \<notin> set e" using cb cleanList_no_sep by blast
  have nsA: "\<forall>e\<in>set A. Separator \<notin> set e" using ca cleanList_no_sep by blast
  have "render ra A \<noteq> []" using render_clean_nonempty[OF ca] .
  then have "rooted (render rb B) = rooted (render ra A)" using t
    by (cases "render ra A") (auto simp: rooted_def)
  then have rr: "rb = ra"
    using rooted_render[OF ca] rooted_render[OF cb] by simp
  show ?thesis
  proof (cases ra)
    case True
    then have j: "joinSep B = joinSep A @ Separator # u" using t rr by (simp add: render_def)
    then have Bne: "B \<noteq> []" by auto
    have "A \<noteq> []"
    proof
      assume "A = []"
      then have "hd (joinSep B) = Separator" using j by simp
      then show False using joinSep_clean_hd[OF cb Bne] by simp
    qed
    moreover have "splitSep (joinSep B) = splitSep (joinSep A) @ splitSep u"
      by (simp add: j splitSep_append_sep)
    ultimately have "B = A @ splitSep u"
      using splitSep_joinSep[OF Bne nsB] splitSep_joinSep[OF _ nsA] by simp
    then show ?thesis using rr by (auto simp: strict_prefix_def)
  next
    case False
    have Bne: "B \<noteq> []"
    proof
      assume "B = []"
      then have "render rb B = ''.''" using False rr by (simp add: render_def)
      then show False using t render_clean_nonempty[OF ca]
        by (cases "render ra A") (auto simp: Separator_def)
    qed
    then have sB: "splitSep (render rb B) = B" using splitSep_joinSep[OF Bne nsB] False rr
      by (simp add: render_def)
    have "A \<noteq> []"
    proof
      assume "A = []"
      then have "render rb B = ''.'' @ Separator # u" using t False by (simp add: render_def)
      then have "splitSep (render rb B) = splitSep ''.'' @ splitSep u"
        by (simp only: splitSep_append_sep)
      then have "''.'' \<in> set B" using sB by (simp add: Separator_def)
      then show False using cleanList_no_sep[OF cb] by blast
    qed
    then have "splitSep (render ra A) = A" using splitSep_joinSep[OF _ nsA] False
      by (simp add: render_def)
    moreover have "splitSep (render rb B) = splitSep (render ra A) @ splitSep u"
      by (simp only: t splitSep_append_sep)
    ultimately have "B = A @ splitSep u" using sB by simp
    then show ?thesis using rr by (auto simp: strict_prefix_def)
  qed
qed

lemma render_prefix_conv:
  assumes "A \<noteq> []" "strict_prefix A B"
  shows "prefix (render r A @ [Separator]) (render r B)"
proof -
  from assms(2) obtain C where B: "B = A @ C" "C \<noteq> []"
    by (auto simp: strict_prefix_def prefix_def)
  then have "joinSep B = joinSep A @ Separator # joinSep C" using joinSep_append assms(1) by simp
  then show ?thesis using assms(1) B by (cases r) (auto simp: render_def)
qed

lemma clean_rest_no_dotdot:
  assumes cb: "cleanList r B" and p: "prefix A B" and ne: "A \<noteq> []" and l: "last A \<noteq> ''..''"
  shows "''..'' \<notin> set (drop (length A) B)"
proof -
  from cb obtain n rest where B: "B = replicate n ''..'' @ rest" and pr: "\<forall>e\<in>set rest. properElem e"
    by (auto simp: cleanList_alt)
  have "n < length A"
  proof (rule ccontr)
    assume "\<not> n < length A"
    then have "length A \<le> n" by simp
    moreover from p obtain C where "B = A @ C" by (auto simp: prefix_def)
    ultimately have "A = take (length A) (replicate n ''..'' @ rest)" using B by simp
    then have "A = take (length A) (replicate n ''..'')" using \<open>length A \<le> n\<close> by simp
    then have "A = replicate (min (length A) n) ''..''" by simp
    then have "set A \<subseteq> {''..''}" by (metis set_replicate_conv_if empty_subsetI subset_refl)
    then show False using ne l by (metis last_in_set singletonD subsetD)
  qed
  then have "set (drop (length A) B) \<subseteq> set rest" using B
    by (auto simp: set_drop_subset dest!: in_set_dropD)
  then show ?thesis using pr by (auto simp: properElem_def)
qed
section \<open>The traversal guard and lexical containment\<close>

lemma Join_two:
  "Join [d, n] = (if d \<noteq> [] then Clean (d @ Separator # n) else if n \<noteq> [] then Clean n else [])"
  by (simp add: Join.simps)

lemma Join_two_cases: "Join [d, n] = [] \<or> (\<exists>x. Join [d, n] = Clean x)"
  by (auto simp: Join_two)

lemma Clean_resolve_eq: "Clean p = render r es \<and> cleanList r es" if "resolve p = (r, es)"
  using that Clean_render[of p] cleanList_resolve[of p] by simp

lemma insideTempDir_elems:
  assumes g: "insideTempDir d (Clean x)"
  shows "fst (resolve d) = fst (resolve x) \<and> strict_prefix (snd (resolve d)) (snd (resolve x))"
proof -
  have "prefix (render (fst (resolve d)) (snd (resolve d)) @ [Separator])
          (render (fst (resolve x)) (snd (resolve x)))"
    using g by (simp add: insideTempDir_def HasPrefix_def Clean_render)
  then show ?thesis
    using render_prefix_imp[OF cleanList_resolve[of d] cleanList_resolve[of x]] by simp
qed

lemma insideTempDir_nonempty: "insideTempDir d p \<Longrightarrow> p \<noteq> []"
  by (auto simp: insideTempDir_def HasPrefix_def)

lemma insideTempDir_descendant:
  assumes t: "properTarget d" and g: "insideTempDir d (Clean x)"
  shows "descendant d (Clean x)"
proof -
  obtain rd A where d: "resolve d = (rd, A)" by (cases "resolve d")
  obtain rx B where x: "resolve x = (rx, B)" by (cases "resolve x")
  have e: "rd = rx" "strict_prefix A B" using insideTempDir_elems[OF g] d x by simp_all
  have cb: "cleanList rx B" using cleanList_resolve[of x] x by simp
  have "A \<noteq> []" "last A \<noteq> ''..''" using t d by (simp_all add: properTarget_def)
  then have "''..'' \<notin> set (drop (length A) B)"
    using clean_rest_no_dotdot[OF cb, of A] e(2) by (simp add: strict_prefix_def)
  then show ?thesis using e d x by (simp add: descendant_def resolve_Clean)
qed

lemma descendant_insideTempDir:
  assumes ne: "snd (resolve d) \<noteq> []" and de: "descendant d p"
  shows "insideTempDir d (Clean p)"
proof -
  obtain rd A where d: "resolve d = (rd, A)" by (cases "resolve d")
  obtain rp B where p: "resolve p = (rp, B)" by (cases "resolve p")
  have "rd = rp" "strict_prefix A B" using de d p by (simp_all add: descendant_def)
  moreover have "A \<noteq> []" using ne d by simp
  ultimately have "prefix (render rd A @ [Separator]) (render rp B)"
    using render_prefix_conv[of A B rd] by simp
  then show ?thesis using d p by (simp add: insideTempDir_def HasPrefix_def Clean_render)
qed


lemma cleanElems_snoc_proper:
  "properElem e \<Longrightarrow> cleanElems r (es @ [e]) = cleanElems r es @ [e]"
  by (simp add: cleanElems_def cleanElem_def properElem_def)

lemma properElem_tempDirName: "properElem tempDirName"
  by (simp add: properElem_def tempDirName_def Separator_def)

lemma splitSep_tempDirName: "splitSep tempDirName = [tempDirName]"
  using properElem_tempDirName by (simp add: splitSep_single properElem_def)

lemma rooted_append: "h \<noteq> [] \<Longrightarrow> rooted (h @ t) = rooted h"
  by (cases h) (simp_all add: rooted_def)

lemma resolve_tempDirOf:
  "resolve (tempDirOf h) = (rooted h, cleanElems (rooted h) (splitSep h) @ [tempDirName])"
proof (cases "h = []")
  case True
  have "tempDirName \<noteq> []" by (simp add: tempDirName_def)
  then have "tempDirOf h = Clean tempDirName" using True by (simp add: tempDirOf_def Join_two)
  moreover have "rooted tempDirName = False" by (simp add: rooted_def tempDirName_def Separator_def)
  moreover have "cleanElems False [[]] = []" by (rule cleanElems_empty)
  moreover have "cleanElems False [tempDirName] = [tempDirName]"
    using cleanElems_snoc_proper[OF properElem_tempDirName, of False "[]"]
    by (simp add: cleanElems_def)
  ultimately show ?thesis using True
    by (simp add: resolve_Clean) (simp add: resolve_def splitSep_tempDirName rooted_def)
next
  case False
  then have "tempDirOf h = Clean (h @ Separator # tempDirName)" by (simp add: tempDirOf_def Join_two)
  then have "resolve (tempDirOf h) = resolve (h @ Separator # tempDirName)"
    by (simp add: resolve_Clean)
  also have "\<dots> = (rooted h, cleanElems (rooted h) (splitSep h @ [tempDirName]))"
    using False by (simp add: resolve_def rooted_append splitSep_append_sep splitSep_tempDirName)
  finally show ?thesis by (simp add: cleanElems_snoc_proper[OF properElem_tempDirName])
qed

lemma properTarget_tempDirOf: "properTarget (tempDirOf h)"
  by (simp add: properTarget_def resolve_tempDirOf tempDirName_def)

lemma cleanStack_tl: "cleanStack r (e # out) \<Longrightarrow> cleanStack r out"
proof -
  assume "cleanStack r (e # out)"
  then obtain n rest where o: "e # out = rest @ replicate n ''..''"
    and p: "\<forall>e\<in>set rest. properElem e" and rn: "r \<longrightarrow> n = 0"
    by (auto simp: cleanStack_def)
  show ?thesis
  proof (cases rest)
    case Nil
    then obtain m where "n = Suc m" "out = replicate m ''..''" using o by (cases n) auto
    then show ?thesis using rn unfolding cleanStack_def
      by (intro exI[of _ m] exI[of _ "[]"]) auto
  next
    case (Cons a rest')
    then have "out = rest' @ replicate n ''..''" using o by simp
    then show ?thesis using p rn Cons unfolding cleanStack_def
      by (intro exI[of _ n] exI[of _ rest']) auto
  qed
qed

lemma cleanList_butlast: "cleanList r (es @ [e]) \<Longrightarrow> cleanList r es"
  using cleanStack_tl[of r e "rev es"] by (simp add: cleanList_def)

lemma cleanElems_snoc_empty: "cleanElems r (es @ [[]]) = cleanElems r es"
  by (simp add: cleanElems_def cleanElem_def)

lemma splitSep_snoc_sep: "splitSep (p @ [Separator]) = splitSep p @ [[]]"
  using splitSep_append_sep[of p "[]"] by simp

lemma Clean_append_sep: "p \<noteq> [] \<Longrightarrow> Clean (p @ [Separator]) = Clean p"
  by (simp add: Clean_def rooted_append splitSep_snoc_sep cleanElems_snoc_empty)

lemma Clean_render_clean: "cleanList r es \<Longrightarrow> Clean (render r es) = render r es"
  using Clean_render[of "render r es"] by (simp add: resolve_render)

lemma drop_last_elem:
  "Separator \<notin> set l \<Longrightarrow>
   rev (dropWhile (\<lambda>c. c \<noteq> Separator) (rev (s @ Separator # l))) = s @ [Separator]"
proof -
  assume "Separator \<notin> set l"
  then have "\<forall>c\<in>set (rev l). c \<noteq> Separator" by auto
  then have "dropWhile (\<lambda>c. c \<noteq> Separator) (rev l @ Separator # rev s) = Separator # rev s"
    by (simp add: dropWhile_append3)
  then show ?thesis by simp
qed

lemma render_snoc:
  "es \<noteq> [] \<Longrightarrow> render r (es @ [l]) = render r es @ Separator # l"
  by (simp add: render_def joinSep_append)

lemma Dir_render_snoc:
  assumes c: "cleanList r (es @ [l])" and ne: "es \<noteq> []"
  shows "Dir (render r (es @ [l])) = render r es"
proof -
  have l: "Separator \<notin> set l" using cleanList_no_sep[OF c, of l] by simp
  have ces: "cleanList r es" using cleanList_butlast[OF c] .
  have "Dir (render r (es @ [l])) = Clean (render r es @ [Separator])"
    unfolding Dir_def render_snoc[OF ne] drop_last_elem[OF l] ..
  also have "\<dots> = Clean (render r es)"
    using render_clean_nonempty[OF ces] by (rule Clean_append_sep)
  also have "\<dots> = render r es" using ces by (rule Clean_render_clean)
  finally show ?thesis .
qed

lemma Dir_within:
  assumes t: "properTarget d" and g: "insideTempDir d (Clean x)"
  shows "within d (Dir (Clean x))"
proof -
  obtain rd A where d: "resolve d = (rd, A)" by (cases "resolve d")
  obtain rx B where x: "resolve x = (rx, B)" by (cases "resolve x")
  have e: "rd = rx" "strict_prefix A B" using insideTempDir_elems[OF g] d x by simp_all
  have cb: "cleanList rx B" using cleanList_resolve[of x] x by simp
  have A: "A \<noteq> []" "last A \<noteq> ''..''" using t d by (simp_all add: properTarget_def)
  from e(2) obtain C where B: "B = A @ C" "C \<noteq> []"
    by (auto simp: strict_prefix_def prefix_def)
  define C' where "C' = butlast C"
  define l where "l = last C"
  have C: "C = C' @ [l]" using B(2) by (simp add: C'_def l_def)
  have B': "B = (A @ C') @ [l]" using B C by simp
  have c': "cleanList rx ((A @ C') @ [l])" using cb B' by simp
  have "Dir (Clean x) = render rx (A @ C')"
    using Dir_render_snoc[OF c'] A(1) x B' by (simp add: Clean_render)
  moreover have "cleanList rx (A @ C')" using cleanList_butlast[OF c'] .
  ultimately have r: "resolve (Dir (Clean x)) = (rx, A @ C')" by (simp add: resolve_render)
  have nd: "''..'' \<notin> set (drop (length A) B)"
    using clean_rest_no_dotdot[OF cb, of A] A B by simp
  show ?thesis
  proof (cases "C' = []")
    case True
    then show ?thesis using r d e by (simp add: within_def)
  next
    case False
    have "''..'' \<notin> set C'" using nd B C by simp
    then have "descendant d (Dir (Clean x))"
      using r d e False by (simp add: descendant_def strict_prefix_def)
    then show ?thesis by (simp add: within_def)
  qed
qed

section \<open>Lemmas on the extraction passes\<close>

lemma guarded_Join:
  assumes t: "properTarget d" and g: "insideTempDir d (Join [d, n])"
  shows "descendant d (Join [d, n]) \<and> within d (Join [d, n]) \<and> within d (Dir (Join [d, n]))"
proof -
  have "Join [d, n] \<noteq> []" using g by (rule insideTempDir_nonempty)
  then obtain x where x: "Join [d, n] = Clean x" using Join_two_cases[of d n] by auto
  then have "descendant d (Clean x)" "within d (Dir (Clean x))"
    using insideTempDir_descendant[OF t] Dir_within[OF t] g by simp_all
  then show ?thesis using x by (simp add: within_def)
qed

lemma effects_issue [simp]: "effects (issue e st) = effects st @ [e]"
  by (simp add: issue_def)

lemma binaryPath_issue [simp]: "binaryPath (issue e st) = binaryPath st"
  by (simp add: issue_def)

lemma safeEffects_Nil [simp]: "safeEffects d []"
  by (simp add: safeEffects_def)

lemma safeEffects_append [simp]:
  "safeEffects d (es @ fs) = (safeEffects d es \<and> safeEffects d fs)"
  by (auto simp: safeEffects_def)

lemma safeEffects_Cons [simp]:
  "safeEffects d (e # es) = (within d (effectPath e) \<and> safeEffects d es)"
  by (auto simp: safeEffects_def)

lemma extractZipEntry_safe:
  assumes t: "properTarget d" and s: "safeEffects d (effects st)"
  shows "safeEffects d (effects (fst (extractZipEntry d b st x)))"
proof (cases "insideTempDir d (Join [d, zName (fst x)])")
  case False
  then show ?thesis using s
    by (cases x) (simp add: extractZipEntry_def)
next
  case True
  then show ?thesis using s guarded_Join[OF t True]
    by (cases x) (simp add: extractZipEntry_def Let_def)
qed

lemma extractTarEntry_safe:
  assumes t: "properTarget d" and s: "safeEffects d (effects st)"
  shows "safeEffects d (effects (fst (extractTarEntry d st x)))"
proof (cases "insideTempDir d (Join [d, tName (fst x)])")
  case False
  then show ?thesis using s
    by (cases x) (simp add: extractTarEntry_def)
next
  case True
  then show ?thesis using s guarded_Join[OF t True]
    by (cases x) (simp add: extractTarEntry_def Let_def)
qed

lemma extractZipEntries_safe:
  "properTarget d \<Longrightarrow> safeEffects d (effects st) \<Longrightarrow>
   safeEffects d (effects (fst (extractZipEntries d b st xs)))"
proof (induction xs arbitrary: st)
  case Nil
  then show ?case by simp
next
  case (Cons x xs)
  obtain st' r where e: "extractZipEntry d b st x = (st', r)" by (cases "extractZipEntry d b st x")
  then have s': "safeEffects d (effects st')"
    using extractZipEntry_safe[OF Cons.prems, of b x] by simp
  show ?case
  proof (cases r)
    case None
    then show ?thesis using e Cons.IH[OF Cons.prems(1) s'] by simp
  next
    case (Some err)
    then show ?thesis using e s' by simp
  qed
qed

lemma extractTarEntries_safe:
  "properTarget d \<Longrightarrow> safeEffects d (effects st) \<Longrightarrow>
   safeEffects d (effects (fst (extractTarEntries d st xs)))"
proof (induction xs arbitrary: st)
  case Nil
  then show ?case by simp
next
  case (Cons x xs)
  obtain st' r where e: "extractTarEntry d st x = (st', r)" by (cases "extractTarEntry d st x")
  then have s': "safeEffects d (effects st')"
    using extractTarEntry_safe[OF Cons.prems, of x] by simp
  show ?case
  proof (cases r)
    case None
    then show ?thesis using e Cons.IH[OF Cons.prems(1) s'] by simp
  next
    case (Some err)
    then show ?thesis using e s' by simp
  qed
qed

lemma extractZip_effects:
  "snd (extractZip (Some files) d b) =
     effects (fst (extractZipEntries d b \<lparr>binaryPath = [], effects = []\<rparr> files))"
  by (simp add: extractZip_def split: prod.splits option.splits)

lemma extractTarGz_effects:
  "snd (extractTarGz (Some stream) d) =
     effects (fst (extractTarEntries d \<lparr>binaryPath = [], effects = []\<rparr> (tEntries stream)))"
  by (simp add: extractTarGz_def split: prod.splits option.splits)

lemma extractZip_safe: "properTarget d \<Longrightarrow> safeEffects d (snd (extractZip archive d b))"
proof (cases archive)
  case None
  then show ?thesis by (simp add: extractZip_def)
next
  case (Some files)
  assume "properTarget d"
  then show ?thesis using Some extractZipEntries_safe[of d "\<lparr>binaryPath = [], effects = []\<rparr>" b files]
    by (simp add: extractZip_effects)
qed

lemma extractTarGz_safe: "properTarget d \<Longrightarrow> safeEffects d (snd (extractTarGz archive d))"
proof (cases archive)
  case None
  then show ?thesis by (simp add: extractTarGz_def)
next
  case (Some stream)
  assume "properTarget d"
  then show ?thesis using Some extractTarEntries_safe[of d "\<lparr>binaryPath = [], effects = []\<rparr>" "tEntries stream"]
    by (simp add: extractTarGz_effects)
qed

lemma extractZipEntry_skip:
  "\<not> insideTempDir d (Join [d, zName f]) \<Longrightarrow> extractZipEntry d b st (f, io) = (st, None)"
  by (simp add: extractZipEntry_def)

lemma extractTarEntry_skip:
  "\<not> insideTempDir d (Join [d, tName h]) \<Longrightarrow> extractTarEntry d st (h, io) = (st, None)"
  by (simp add: extractTarEntry_def)

lemma not_descendant_not_inside:
  assumes t: "properTarget d" and n: "\<not> descendant d (Join [d, n])"
  shows "\<not> insideTempDir d (Join [d, n])"
  using guarded_Join[OF t] n by blast

lemma zipMatches_Nil [simp]: "zipMatches d b [] = []"
  by (simp add: zipMatches_def)

lemma zipMatches_Cons:
  "zipMatches d b (x # xs) =
     (if insideTempDir d (Join [d, zName (fst x)]) \<and> \<not> zipIsDir (fst x) \<and>
         Base (Join [d, zName (fst x)]) = b
      then Join [d, zName (fst x)] # zipMatches d b xs else zipMatches d b xs)"
  by (simp add: zipMatches_def)

lemma tarMatches_Nil [simp]: "tarMatches d [] = []"
  by (simp add: tarMatches_def)

lemma tarMatches_Cons:
  "tarMatches d (x # xs) =
     (if insideTempDir d (Join [d, tName (fst x)]) \<and> tTypeflag (fst x) = TypeReg \<and>
         (HasSuffix (Join [d, tName (fst x)]) ''/bin/ollama'' \<or> Base (Join [d, tName (fst x)]) = ''ollama'')
      then Join [d, tName (fst x)] # tarMatches d xs else tarMatches d xs)"
  by (simp add: tarMatches_def)

lemma zipMatches_inside: "p \<in> set (zipMatches d b xs) \<Longrightarrow> insideTempDir d p \<and> Base p = b \<and> (\<exists>x\<in>set xs. p = Join [d, zName (fst x)] \<and> \<not> zipIsDir (fst x))"
  by (auto simp: zipMatches_def)

lemma tarMatches_inside: "p \<in> set (tarMatches d xs) \<Longrightarrow> insideTempDir d p \<and> (HasSuffix p ''/bin/ollama'' \<or> Base p = ''ollama'') \<and> (\<exists>x\<in>set xs. p = Join [d, tName (fst x)] \<and> tTypeflag (fst x) = TypeReg)"
  by (auto simp: tarMatches_def)

text \<open>One entry that does not end the pass: what it leaves in \<open>binaryPath\<close>.\<close>

lemma extractZipEntry_None:
  assumes "extractZipEntry d b st x = (st', None)"
  shows "binaryPath st' = (if zipMatches d b [x] = [] then binaryPath st else Join [d, zName (fst x)])"
  using assms
  by (cases x) (auto simp: extractZipEntry_def zipMatches_Cons Let_def split: if_splits)

lemma TypeReg_neq_TypeDir: "TypeReg \<noteq> TypeDir"
  by (simp add: TypeReg_def TypeDir_def)

lemma extractTarEntry_None:
  assumes "extractTarEntry d st x = (st', None)"
  shows "binaryPath st' = (if tarMatches d [x] = [] then binaryPath st else Join [d, tName (fst x)])"
  using assms TypeReg_neq_TypeDir
  by (cases x) (auto simp: extractTarEntry_def tarMatches_Cons Let_def split: if_splits)

lemma extractZipEntry_ok:
  "allOk (snd x) \<Longrightarrow> snd (extractZipEntry d b st x) = None"
  by (cases x) (simp add: extractZipEntry_def allOk_def Let_def)

lemma extractTarEntry_ok:
  "allOk (snd x) \<Longrightarrow> snd (extractTarEntry d st x) = None"
  by (cases x) (simp add: extractTarEntry_def allOk_def Let_def)

lemma zipMatches_split: "zipMatches d b (x # xs) = zipMatches d b [x] @ zipMatches d b xs"
  by (simp add: zipMatches_Cons)

lemma tarMatches_split: "tarMatches d (x # xs) = tarMatches d [x] @ tarMatches d xs"
  by (simp add: tarMatches_Cons)

lemma zipMatches_single: "zipMatches d b [x] = [] \<or> zipMatches d b [x] = [Join [d, zName (fst x)]]"
  by (simp add: zipMatches_Cons)

lemma tarMatches_single: "tarMatches d [x] = [] \<or> tarMatches d [x] = [Join [d, tName (fst x)]]"
  by (simp add: tarMatches_Cons)

lemma extractZipEntries_None:
  "extractZipEntries d b st xs = (st', None) \<Longrightarrow>
   binaryPath st' = (if zipMatches d b xs = [] then binaryPath st else last (zipMatches d b xs))"
proof (induction xs arbitrary: st)
  case Nil
  then show ?case by simp
next
  case (Cons x xs)
  obtain st1 r where e: "extractZipEntry d b st x = (st1, r)" by (cases "extractZipEntry d b st x")
  have r: "r = None" using Cons.prems e by (cases r) auto
  then have rest: "extractZipEntries d b st1 xs = (st', None)" using Cons.prems e by simp
  have b1: "binaryPath st1 = (if zipMatches d b [x] = [] then binaryPath st else Join [d, zName (fst x)])"
    using extractZipEntry_None e r by blast
  have "binaryPath st' = (if zipMatches d b xs = [] then binaryPath st1 else last (zipMatches d b xs))"
    using Cons.IH[OF rest] .
  then show ?case using b1 zipMatches_single[of d b x]
    by (auto simp: zipMatches_split[of d b x xs])
qed

lemma extractTarEntries_None:
  "extractTarEntries d st xs = (st', None) \<Longrightarrow>
   binaryPath st' = (if tarMatches d xs = [] then binaryPath st else last (tarMatches d xs))"
proof (induction xs arbitrary: st)
  case Nil
  then show ?case by simp
next
  case (Cons x xs)
  obtain st1 r where e: "extractTarEntry d st x = (st1, r)" by (cases "extractTarEntry d st x")
  have r: "r = None" using Cons.prems e by (cases r) auto
  then have rest: "extractTarEntries d st1 xs = (st', None)" using Cons.prems e by simp
  have b1: "binaryPath st1 = (if tarMatches d [x] = [] then binaryPath st else Join [d, tName (fst x)])"
    using extractTarEntry_None e r by blast
  have "binaryPath st' = (if tarMatches d xs = [] then binaryPath st1 else last (tarMatches d xs))"
    using Cons.IH[OF rest] .
  then show ?case using b1 tarMatches_single[of d x]
    by (auto simp: tarMatches_split[of d x xs])
qed

lemma extractZipEntries_ok:
  "\<forall>x\<in>set xs. allOk (snd x) \<Longrightarrow> snd (extractZipEntries d b st xs) = None"
proof (induction xs arbitrary: st)
  case Nil
  then show ?case by simp
next
  case (Cons x xs)
  obtain st1 r where e: "extractZipEntry d b st x = (st1, r)" by (cases "extractZipEntry d b st x")
  then have "r = None" using extractZipEntry_ok[of x d b st] Cons.prems by simp
  then show ?case using e Cons by simp
qed

lemma extractTarEntries_ok:
  "\<forall>x\<in>set xs. allOk (snd x) \<Longrightarrow> snd (extractTarEntries d st xs) = None"
proof (induction xs arbitrary: st)
  case Nil
  then show ?case by simp
next
  case (Cons x xs)
  obtain st1 r where e: "extractTarEntry d st x = (st1, r)" by (cases "extractTarEntry d st x")
  then have "r = None" using extractTarEntry_ok[of x d st] Cons.prems by simp
  then show ?case using e Cons by simp
qed

lemma last_zipMatches_nonempty:
  "zipMatches d b xs \<noteq> [] \<Longrightarrow> last (zipMatches d b xs) \<noteq> []"
  using zipMatches_inside[of "last (zipMatches d b xs)" d b xs] insideTempDir_nonempty
  by (meson last_in_set)

lemma last_tarMatches_nonempty:
  "tarMatches d xs \<noteq> [] \<Longrightarrow> last (tarMatches d xs) \<noteq> []"
  using tarMatches_inside[of "last (tarMatches d xs)" d xs] insideTempDir_nonempty
  by (meson last_in_set)

text \<open>The result of a pass that returns a path.\<close>

lemma extractZip_Inr:
  assumes "fst (extractZip archive d b) = Inr p"
  shows "\<exists>files. archive = Some files \<and> zipMatches d b files \<noteq> [] \<and> p = last (zipMatches d b files)"
proof (cases archive)
  case None
  then show ?thesis using assms by (simp add: extractZip_def)
next
  case (Some files)
  obtain st r where e: "extractZipEntries d b \<lparr>binaryPath = [], effects = []\<rparr> files = (st, r)"
    by (cases "extractZipEntries d b \<lparr>binaryPath = [], effects = []\<rparr> files")
  have r: "r = None" using assms Some e by (cases r) (auto simp: extractZip_def)
  then have bp: "binaryPath st = (if zipMatches d b files = [] then [] else last (zipMatches d b files))"
    using extractZipEntries_None[of d b _ files st] e by simp
  have "binaryPath st \<noteq> [] \<and> p = binaryPath st"
    using assms Some e r by (auto simp: extractZip_def split: if_splits)
  then show ?thesis using bp Some by (auto split: if_splits)
qed

lemma extractTarGz_Inr:
  assumes "fst (extractTarGz archive d) = Inr p"
  shows "\<exists>stream. archive = Some stream \<and> \<not> tCorrupt stream \<and> tarMatches d (tEntries stream) \<noteq> [] \<and>
           p = last (tarMatches d (tEntries stream))"
proof (cases archive)
  case None
  then show ?thesis using assms by (simp add: extractTarGz_def)
next
  case (Some stream)
  obtain st r where e: "extractTarEntries d \<lparr>binaryPath = [], effects = []\<rparr> (tEntries stream) = (st, r)"
    by (cases "extractTarEntries d \<lparr>binaryPath = [], effects = []\<rparr> (tEntries stream)")
  have r: "r = None" using assms Some e by (cases r) (auto simp: extractTarGz_def)
  then have bp: "binaryPath st = (if tarMatches d (tEntries stream) = [] then [] else last (tarMatches d (tEntries stream)))"
    using extractTarEntries_None[of d _ "tEntries stream" st] e by simp
  have "binaryPath st \<noteq> [] \<and> p = binaryPath st \<and> \<not> tCorrupt stream"
    using assms Some e r by (auto simp: extractTarGz_def split: if_splits)
  then show ?thesis using bp Some by (auto split: if_splits)
qed

text \<open>The result of a pass in which every call succeeds.\<close>

lemma extractZip_allOk:
  assumes "\<forall>x\<in>set files. allOk (snd x)"
  shows "fst (extractZip (Some files) d b) =
           (if zipMatches d b files = [] then Inl BinaryNotFound else Inr (last (zipMatches d b files)))"
proof -
  obtain st r where e: "extractZipEntries d b \<lparr>binaryPath = [], effects = []\<rparr> files = (st, r)"
    by (cases "extractZipEntries d b \<lparr>binaryPath = [], effects = []\<rparr> files")
  have "snd (extractZipEntries d b \<lparr>binaryPath = [], effects = []\<rparr> files) = None"
    using assms by (rule extractZipEntries_ok)
  then have r: "r = None" using e by simp
  then have bp: "binaryPath st = (if zipMatches d b files = [] then [] else last (zipMatches d b files))"
    using extractZipEntries_None[of d b _ files st] e by simp
  show ?thesis using e r bp last_zipMatches_nonempty[of d b files]
    by (auto simp: extractZip_def)
qed

lemma extractTarGz_allOk:
  assumes "\<forall>x\<in>set (tEntries stream). allOk (snd x)" "\<not> tCorrupt stream"
  shows "fst (extractTarGz (Some stream) d) =
           (if tarMatches d (tEntries stream) = [] then Inl BinaryNotFound
            else Inr (last (tarMatches d (tEntries stream))))"
proof -
  obtain st r where e: "extractTarEntries d \<lparr>binaryPath = [], effects = []\<rparr> (tEntries stream) = (st, r)"
    by (cases "extractTarEntries d \<lparr>binaryPath = [], effects = []\<rparr> (tEntries stream)")
  have "snd (extractTarEntries d \<lparr>binaryPath = [], effects = []\<rparr> (tEntries stream)) = None"
    using assms(1) by (rule extractTarEntries_ok)
  then have r: "r = None" using e by simp
  then have bp: "binaryPath st = (if tarMatches d (tEntries stream) = [] then [] else last (tarMatches d (tEntries stream)))"
    using extractTarEntries_None[of d _ "tEntries stream" st] e by simp
  show ?thesis using e r bp assms(2) last_tarMatches_nonempty[of d "tEntries stream"]
    by (auto simp: extractTarGz_def)
qed

lemma extractZipEntry_calls:
  "allOk (snd x) \<Longrightarrow> effects (fst (extractZipEntry d b st x)) = effects st @ zipEntryCalls d x"
  by (cases x) (simp add: extractZipEntry_def zipEntryCalls_def allOk_def Let_def)

lemma extractTarEntry_calls:
  "allOk (snd x) \<Longrightarrow> effects (fst (extractTarEntry d st x)) = effects st @ tarEntryCalls d x"
  by (cases x) (simp add: extractTarEntry_def tarEntryCalls_def allOk_def Let_def)

lemma extractZipEntries_calls:
  "\<forall>x\<in>set xs. allOk (snd x) \<Longrightarrow>
   effects (fst (extractZipEntries d b st xs)) = effects st @ concat (map (zipEntryCalls d) xs)"
proof (induction xs arbitrary: st)
  case Nil
  then show ?case by simp
next
  case (Cons x xs)
  obtain st1 r where e: "extractZipEntry d b st x = (st1, r)" by (cases "extractZipEntry d b st x")
  have "r = None" using extractZipEntry_ok[of x d b st] Cons.prems e by simp
  moreover have "effects st1 = effects st @ zipEntryCalls d x"
    using extractZipEntry_calls[of x d b st] Cons.prems e by simp
  ultimately show ?case using e Cons by simp
qed

lemma extractTarEntries_calls:
  "\<forall>x\<in>set xs. allOk (snd x) \<Longrightarrow>
   effects (fst (extractTarEntries d st xs)) = effects st @ concat (map (tarEntryCalls d) xs)"
proof (induction xs arbitrary: st)
  case Nil
  then show ?case by simp
next
  case (Cons x xs)
  obtain st1 r where e: "extractTarEntry d st x = (st1, r)" by (cases "extractTarEntry d st x")
  have "r = None" using extractTarEntry_ok[of x d st] Cons.prems e by simp
  moreover have "effects st1 = effects st @ tarEntryCalls d x"
    using extractTarEntry_calls[of x d st] Cons.prems e by simp
  ultimately show ?case using e Cons by simp
qed

lemma extractZip_calls:
  "\<forall>x\<in>set files. allOk (snd x) \<Longrightarrow>
   snd (extractZip (Some files) d b) = concat (map (zipEntryCalls d) files)"
  by (simp add: extractZip_effects extractZipEntries_calls)

lemma extractTarGz_calls:
  "\<forall>x\<in>set (tEntries stream). allOk (snd x) \<Longrightarrow>
   snd (extractTarGz (Some stream) d) = concat (map (tarEntryCalls d) (tEntries stream))"
  by (simp add: extractTarGz_effects extractTarEntries_calls)

lemma HasSuffix_bin_Base: "HasSuffix p ''/bin/ollama'' \<Longrightarrow> Base p = ''ollama''"
proof -
  assume "HasSuffix p ''/bin/ollama''"
  then obtain q where "p = q @ ''/bin/ollama''" by (auto simp: HasSuffix_def suffix_def)
  then show ?thesis by (simp add: Base_def Separator_def)
qed

lemma tar_platform_binaryName:
  "archiveFormat (getPlatformConfig goos) = TarGzFormat \<Longrightarrow> binaryName (getPlatformConfig goos) = ''ollama''"
  by (simp add: getPlatformConfig_def archiveFormat_def HasSuffix_rev split: if_splits)

section \<open>Lemmas on lines and occurrences\<close>

lemma splitLines_nonempty [simp]: "splitLines s \<noteq> []"
  by (induction s) (auto split: list.splits)

lemma splitLines_hd: "hd (splitLines s) = takeWhile (\<lambda>c. c \<noteq> newline) s"
  by (induction s) (auto split: list.splits)

lemma splitLines_append_nl: "splitLines (a @ newline # b) = splitLines a @ splitLines b"
proof (induction a)
  case Nil
  show ?case by simp
next
  case (Cons c a)
  then show ?case by (cases "splitLines a") auto
qed

lemma splitLines_single: "newline \<notin> set l \<Longrightarrow> splitLines l = [l]"
  by (induction l) auto

lemma Contains_iff: "Contains s sub \<longleftrightarrow> (\<exists>ps ss. s = ps @ sub @ ss)"
proof (induction s)
  case Nil
  show ?case by simp
next
  case (Cons c cs)
  show ?case
  proof
    assume "Contains (c # cs) sub"
    then consider "prefix sub (c # cs)" | "Contains cs sub" by auto
    then show "\<exists>ps ss. c # cs = ps @ sub @ ss"
    proof cases
      case 1
      then obtain ss where "c # cs = sub @ ss" by (auto simp: prefix_def)
      then have "c # cs = [] @ sub @ ss" by simp
      then show ?thesis by blast
    next
      case 2
      then obtain ps ss where "cs = ps @ sub @ ss" using Cons.IH by blast
      then have "c # cs = (c # ps) @ sub @ ss" by simp
      then show ?thesis by blast
    qed
  next
    assume "\<exists>ps ss. c # cs = ps @ sub @ ss"
    then obtain ps ss where e: "c # cs = ps @ sub @ ss" by blast
    show "Contains (c # cs) sub"
    proof (cases ps)
      case Nil
      then have "prefix sub (c # cs)" using e by (simp add: prefix_def)
      then show ?thesis by simp
    next
      case (Cons p ps')
      then have "cs = ps' @ sub @ ss" using e by simp
      then have "Contains cs sub" using Cons.IH by blast
      then show ?thesis by simp
    qed
  qed
qed

lemma Contains_Cons: "Contains cs sub \<Longrightarrow> Contains (c # cs) sub"
  by simp

lemma Contains_self: "Contains s s"
  using Contains_iff[of s s] by (metis append_Nil append_Nil2)

lemma prefix_takeWhile:
  "prefix sub cs \<Longrightarrow> \<forall>c\<in>set sub. P c \<Longrightarrow> prefix sub (takeWhile P cs)"
  by (auto simp: prefix_def takeWhile_append2)

lemma Contains_line:
  "Contains c sub \<Longrightarrow> newline \<notin> set sub \<Longrightarrow> sub \<noteq> [] \<Longrightarrow> \<exists>l\<in>set (splitLines c). Contains l sub"
proof (induction c)
  case Nil
  then show ?case by simp
next
  case (Cons x cs)
  from Cons.prems(1) consider "prefix sub (x # cs)" | "Contains cs sub" by auto
  then show ?case
  proof cases
    case 1
    then obtain sub' where s: "sub = x # sub'" "prefix sub' cs" using Cons.prems(3)
      by (cases sub) auto
    then have x: "x \<noteq> newline" using Cons.prems(2) by auto
    have "prefix sub' (takeWhile (\<lambda>c. c \<noteq> newline) cs)"
      using s Cons.prems(2) by (intro prefix_takeWhile) auto
    then have "prefix sub (x # hd (splitLines cs))" using s by (simp add: splitLines_hd)
    moreover have "x # hd (splitLines cs) \<in> set (splitLines (x # cs))"
      using x by (cases "splitLines cs") auto
    ultimately show ?thesis by (metis Contains.simps(2))
  next
    case 2
    then obtain l where l: "l \<in> set (splitLines cs)" "Contains l sub"
      using Cons.IH Cons.prems by blast
    show ?thesis
    proof (cases "x = newline")
      case True
      then show ?thesis using l by auto
    next
      case False
      obtain y ys where y: "splitLines cs = y # ys" by (cases "splitLines cs") auto
      then have sp: "splitLines (x # cs) = (x # y) # ys" using False by simp
      show ?thesis
      proof (cases "l = y")
        case True
        then have "Contains (x # y) sub" using l by simp
        then show ?thesis using sp by auto
      next
        case False
        then have "l \<in> set ys" using l y by simp
        then show ?thesis using sp l by auto
      qed
    qed
  qed
qed

lemma line_Contains:
  "l \<in> set (splitLines c) \<Longrightarrow> Contains l sub \<Longrightarrow> Contains c sub"
proof (induction c arbitrary: l)
  case Nil
  then show ?case by simp
next
  case (Cons x cs)
  obtain y ys where y: "splitLines cs = y # ys" by (cases "splitLines cs") auto
  have hdc: "Contains y sub \<Longrightarrow> Contains cs sub" using Cons.IH[of y] y by simp
  show ?case
  proof (cases "x = newline")
    case True
    then have "l = [] \<or> l \<in> set (splitLines cs)" using Cons.prems by auto
    then show ?thesis
    proof
      assume "l = []"
      then have "sub = []" using Cons.prems(2) by simp
      then show ?thesis by simp
    next
      assume "l \<in> set (splitLines cs)"
      then show ?thesis using Cons.IH Cons.prems(2) by simp
    qed
  next
    case False
    then have "l = x # y \<or> l \<in> set ys" using Cons.prems y by auto
    then show ?thesis
    proof
      assume l: "l = x # y"
      then consider "prefix sub (x # y)" | "Contains y sub" using Cons.prems(2) by auto
      then show ?thesis
      proof cases
        case 1
        have "prefix (x # y) (x # cs)"
          using y splitLines_hd[of cs] by (simp add: takeWhile_is_prefix)
        then have "prefix sub (x # cs)" using 1 by (rule prefix_order.trans[rotated])
        then show ?thesis by simp
      next
        case 2
        then show ?thesis using hdc by simp
      qed
    next
      assume "l \<in> set ys"
      then show ?thesis using Cons.IH[of l] y Cons.prems(2) by simp
    qed
  qed
qed

lemma dropCR_Contains:
  assumes "Contains l sub" "sub \<noteq> []" "last sub \<noteq> CHR 0x0D"
  shows "Contains (dropCR l) sub"
proof (cases "l \<noteq> [] \<and> last l = CHR 0x0D")
  case False
  then show ?thesis using assms(1) by (auto simp: dropCR_def)
next
  case True
  from assms(1) obtain ps ss where l: "l = ps @ sub @ ss" using Contains_iff by blast
  have "ss \<noteq> []"
  proof
    assume "ss = []"
    then have "last l = last sub" using l assms(2) by simp
    then show False using True assms(3) by simp
  qed
  then have "butlast l = ps @ sub @ butlast ss" using l assms(2) by (simp add: butlast_append)
  then have "Contains (butlast l) sub" using Contains_iff by blast
  then show ?thesis using True by (simp add: dropCR_def)
qed

lemma Contains_dropCR: "Contains (dropCR l) sub \<Longrightarrow> Contains l sub"
proof (cases "l \<noteq> [] \<and> last l = CHR 0x0D")
  case False
  assume "Contains (dropCR l) sub"
  then show ?thesis using False by (auto simp: dropCR_def)
next
  case True
  assume "Contains (dropCR l) sub"
  then have "Contains (butlast l) sub" using True by (simp add: dropCR_def)
  then obtain ps ss where b: "butlast l = ps @ sub @ ss" using Contains_iff by blast
  have "l \<noteq> []" using True by simp
  then have "butlast l @ [last l] = l" by (rule append_butlast_last_id)
  then have "l = (ps @ sub @ ss) @ [last l]" using b by simp
  then have "l = ps @ sub @ (ss @ [last l])" by simp
  then show ?thesis using Contains_iff by blast
qed

lemma scanTokens_subset: "l \<in> set (scanTokens c) \<Longrightarrow> l \<in> set (splitLines c)"
proof (cases "last (splitLines c) = []")
  case True
  assume "l \<in> set (scanTokens c)"
  then have "l \<in> set (butlast (splitLines c))" using True by (simp add: scanTokens_def)
  then show ?thesis by (rule in_set_butlastD)
next
  case False
  assume "l \<in> set (scanTokens c)"
  then show ?thesis using False by (simp add: scanTokens_def)
qed

lemma scanTokens_nonempty_line:
  assumes l: "l \<in> set (splitLines c)" "l \<noteq> []"
  shows "l \<in> set (scanTokens c)"
proof (cases "last (splitLines c) = []")
  case False
  then show ?thesis using l by (simp add: scanTokens_def)
next
  case True
  have "splitLines c = butlast (splitLines c) @ [last (splitLines c)]" by simp
  then have "l \<in> set (butlast (splitLines c) @ [last (splitLines c)])" using l(1) by simp
  then have "l \<in> set (butlast (splitLines c))" using True l(2) by auto
  then show ?thesis using True by (simp add: scanTokens_def)
qed

lemma scanFor_found:
  "list_all (\<lambda>l. length l < MaxScanTokenSize) ls \<Longrightarrow> \<exists>l\<in>set ls. Contains (dropCR l) sub \<Longrightarrow>
   scanFor ls sub"
  by (induction ls) auto

lemma scanFor_Contains: "scanFor ls sub \<Longrightarrow> \<exists>l\<in>set ls. Contains (dropCR l) sub"
  by (induction ls) (auto split: if_splits)

lemma sub_nonempty_line: "Contains l sub \<Longrightarrow> sub \<noteq> [] \<Longrightarrow> l \<noteq> []"
  by (cases l) auto

lemma scanFor_scanTokens:
  assumes "list_all (\<lambda>l. length l < MaxScanTokenSize) (scanTokens c)"
    and "Contains c sub" "newline \<notin> set sub" "sub \<noteq> []" "last sub \<noteq> CHR 0x0D"
  shows "scanFor (scanTokens c) sub"
proof -
  obtain l where l: "l \<in> set (splitLines c)" "Contains l sub"
    using Contains_line[OF assms(2,3,4)] by blast
  then have "l \<in> set (scanTokens c)"
    using scanTokens_nonempty_line sub_nonempty_line assms(4) by blast
  moreover have "Contains (dropCR l) sub" using dropCR_Contains[OF l(2) assms(4,5)] .
  ultimately show ?thesis using scanFor_found[OF assms(1)] by blast
qed

lemma scanFor_imp_Contains: "scanFor (scanTokens c) sub \<Longrightarrow> Contains c sub"
proof -
  assume "scanFor (scanTokens c) sub"
  then obtain l where "l \<in> set (scanTokens c)" "Contains (dropCR l) sub"
    using scanFor_Contains by blast
  then have "l \<in> set (splitLines c)" "Contains l sub"
    using scanTokens_subset Contains_dropCR by blast+
  then show ?thesis by (rule line_Contains)
qed

lemma occurrences_pos: "Contains s sub \<longleftrightarrow> 0 < occurrences s sub"
  by (induction s) auto

lemma prefix_before_nl:
  "newline \<notin> set sub \<Longrightarrow> prefix sub (a @ newline # b) \<longleftrightarrow> prefix sub a"
proof
  assume n: "newline \<notin> set sub" and p: "prefix sub (a @ newline # b)"
  then have "prefix sub a \<or> (\<exists>us. sub = a @ us \<and> prefix us (newline # b))"
    by (simp add: prefix_append)
  then show "prefix sub a"
  proof
    assume "\<exists>us. sub = a @ us \<and> prefix us (newline # b)"
    then obtain us where u: "sub = a @ us" "prefix us (newline # b)" by blast
    then have "us = []" using n by (cases us) auto
    then show ?thesis using u by simp
  qed
next
  assume "prefix sub a"
  then show "prefix sub (a @ newline # b)" by (rule prefix_order.trans) simp
qed

lemma occurrences_append_nl:
  "newline \<notin> set sub \<Longrightarrow> sub \<noteq> [] \<Longrightarrow>
   occurrences (a @ newline # b) sub = occurrences a sub + occurrences b sub"
proof (induction a)
  case Nil
  then have "\<not> prefix sub (newline # b)" by (cases sub) auto
  then show ?case using Nil by simp
next
  case (Cons x a)
  have "prefix sub ((x # a) @ newline # b) \<longleftrightarrow> prefix sub (x # a)"
    using Cons.prems(1) by (rule prefix_before_nl)
  then show ?case using Cons by simp
qed

section \<open>Lemmas on the PATH updater\<close>

lemma pathExport_facts:
  "newline \<notin> set pathExport" "pathExport \<noteq> []" "last pathExport \<noteq> CHR 0x0D"
  "length pathExport < MaxScanTokenSize"
  by (simp_all add: pathExport_def newline_def MaxScanTokenSize_def)

lemma occurrences_pathExport_line: "occurrences (pathExport @ [newline]) pathExport = 1"
  by code_simp

lemma occurrences_appended:
  "occurrences (old @ [newline] @ pathExport @ [newline]) pathExport = occurrences old pathExport + 1"
  using occurrences_append_nl[OF pathExport_facts(1,2), of old "pathExport @ [newline]"]
  by (simp add: occurrences_pathExport_line)

lemma pathAlreadyExists_found:
  assumes "contents fs p = Some c" "Contains c pathExport" "scannable fs p"
  shows "pathAlreadyExists fs p pathExport"
proof -
  have "list_all (\<lambda>l. length l < MaxScanTokenSize) (scanTokens c)" "\<not> readDenied fs p"
    using assms(1,3) by (simp_all add: scannable_def shortLines_def)
  then show ?thesis
    using scanFor_scanTokens[OF _ assms(2) pathExport_facts(1,2,3)] assms(1)
    by (simp add: pathAlreadyExists_def)
qed

lemma pathAlreadyExists_exportLines:
  "pathAlreadyExists fs p pathExport \<Longrightarrow> 0 < exportLines fs p"
  by (auto simp: pathAlreadyExists_def exportLines_def occurrences_pos[symmetric]
      dest: scanFor_imp_Contains split: option.splits if_splits)

text \<open>Scenario: the line is already there.\<close>

lemma updateUnixPath_present:
  assumes "configFile \<in> set configFiles" "contents fs (Join [homeDir, configFile]) = Some c"
    "Contains c pathExport" "scannable fs (Join [homeDir, configFile])"
  shows "updateUnixPath fs homeDir = (None, fs)"
proof -
  have "pathAlreadyExists fs (Join [homeDir, configFile]) pathExport"
    using pathAlreadyExists_found[OF assms(2,3,4)] .
  then have "list_ex (\<lambda>cf. pathAlreadyExists fs (Join [homeDir, cf]) pathExport) configFiles"
    using assms(1) unfolding list_ex_iff by blast
  then show ?thesis by (simp add: updateUnixPath_def del: Join.simps)
qed

text \<open>What a successful append does to one file and to the others.\<close>

lemma scanTokens_appended:
  "scanTokens (old @ [newline] @ pathExport @ [newline]) = splitLines old @ [pathExport]"
proof -
  have "splitLines (old @ [newline] @ pathExport @ [newline]) = splitLines old @ splitLines (pathExport @ newline # [])"
    using splitLines_append_nl[of old "pathExport @ [newline]"] by simp
  also have "splitLines (pathExport @ newline # []) = splitLines pathExport @ splitLines []"
    by (rule splitLines_append_nl)
  also have "splitLines pathExport = [pathExport]"
    using pathExport_facts(1) by (rule splitLines_single)
  finally have "splitLines (old @ [newline] @ pathExport @ [newline]) = (splitLines old @ [pathExport]) @ [[]]"
    by simp
  then show ?thesis unfolding scanTokens_def Let_def by (simp only: last_snoc butlast_snoc refl if_True)
qed

lemma short_splitLines:
  assumes "list_all (\<lambda>l. length l < MaxScanTokenSize) (scanTokens old)"
  shows "list_all (\<lambda>l. length l < MaxScanTokenSize) (splitLines old)"
proof -
  have "length l < MaxScanTokenSize" if "l \<in> set (splitLines old)" for l
  proof (cases "l = []")
    case True
    then show ?thesis by (simp add: MaxScanTokenSize_def)
  next
    case False
    then have "l \<in> set (scanTokens old)" using that by (rule scanTokens_nonempty_line[rotated])
    then show ?thesis using assms by (simp add: list_all_iff)
  qed
  then show ?thesis by (simp add: list_all_iff)
qed

lemma appended_scannable_found:
  assumes "list_all (\<lambda>l. length l < MaxScanTokenSize) (scanTokens old)"
  shows "list_all (\<lambda>l. length l < MaxScanTokenSize) (scanTokens (old @ [newline] @ pathExport @ [newline])) \<and>
         scanFor (scanTokens (old @ [newline] @ pathExport @ [newline])) pathExport"
proof -
  have s: "list_all (\<lambda>l. length l < MaxScanTokenSize) (splitLines old @ [pathExport])"
    using short_splitLines[OF assms] pathExport_facts(4) by simp
  have "Contains (dropCR pathExport) pathExport"
    using dropCR_Contains[OF Contains_self pathExport_facts(2,3)] .
  then have "\<exists>l\<in>set (splitLines old @ [pathExport]). Contains (dropCR l) pathExport" by simp
  then show ?thesis using s scanFor_found unfolding scanTokens_appended by blast
qed

lemma sameConfig_refl [simp]: "sameConfig fs fs"
  by (simp add: sameConfig_def)

lemma sameConfig_trans: "sameConfig a b \<Longrightarrow> sameConfig b c \<Longrightarrow> sameConfig a c"
  unfolding sameConfig_def by (metis option.distinct(1))

lemma occurrences_Nil_pathExport: "occurrences [] pathExport = 0"
  using pathExport_facts(2) by simp

lemma sameConfig_exportLines: "sameConfig fs fs' \<Longrightarrow> exportLines fs' q = exportLines fs q"
proof -
  assume s: "sameConfig fs fs'"
  then have "contents fs' q = contents fs q \<or> (contents fs q = None \<and> contents fs' q = Some [])"
    by (simp add: sameConfig_def)
  then show ?thesis using pathExport_facts(2) by (auto simp: exportLines_def)
qed

lemma scanTokens_Nil: "scanTokens [] = []"
  by (simp add: scanTokens_def)

lemma sameConfig_scannable: "sameConfig fs fs' \<Longrightarrow> scannable fs q \<Longrightarrow> scannable fs' q"
proof -
  assume s: "sameConfig fs fs'" and c: "scannable fs q"
  from s have "contents fs' q = contents fs q \<or> (contents fs q = None \<and> contents fs' q = Some [])"
    and "readDenied fs' = readDenied fs"
    by (simp_all add: sameConfig_def)
  then show ?thesis using c by (auto simp: scannable_def shortLines_def scanTokens_Nil)
qed

lemma appendToFile_None:
  "appendToFile fs p pathExport = (None, fs') \<Longrightarrow> fs' = withLine fs p"
  by (auto simp: appendToFile_def withLine_def Let_def split: if_splits)

lemma appendToFile_Some:
  "appendToFile fs p x = (Some e, fs') \<Longrightarrow> sameConfig fs fs'"
  by (auto simp: appendToFile_def sameConfig_def Let_def split: if_splits option.splits)

lemma appendToFirst_None:
  "appendToFirst fs h cfs = (None, fs1) \<Longrightarrow>
   \<exists>cf\<in>set cfs. \<exists>fsm. sameConfig fs fsm \<and> fs1 = withLine fsm (Join [h, cf])"
proof (induction cfs arbitrary: fs)
  case Nil
  then show ?case by simp
next
  case (Cons cf cfs)
  show ?case
  proof (cases "cf = ''.zshrc'' \<and> \<not> fileExists fs (Join [h, cf])")
    case True
    then have "cf = ''.zshrc''" "\<not> fileExists fs (Join [h, ''.zshrc''])" by blast+
    then have "appendToFirst fs h cfs = (None, fs1)" using Cons.prems by (simp add: Let_def)
    then show ?thesis using Cons.IH by auto
  next
    case False
    obtain r fs' where a: "appendToFile fs (Join [h, cf]) pathExport = (r, fs')"
      by (cases "appendToFile fs (Join [h, cf]) pathExport")
    show ?thesis
    proof (cases r)
      case None
      then have "fs1 = fs'" using Cons.prems False a by (simp add: Let_def)
      then have "fs1 = withLine fs (Join [h, cf])" using a None appendToFile_None by blast
      then show ?thesis using sameConfig_refl by (metis list.set_intros(1))
    next
      case (Some e)
      then have rest: "appendToFirst fs' h cfs = (None, fs1)"
        using Cons.prems False a by (simp add: Let_def)
      have s: "sameConfig fs fs'" using a Some appendToFile_Some by blast
      from Cons.IH[OF rest] obtain cf' fsm where
        "cf' \<in> set cfs" "sameConfig fs' fsm" "fs1 = withLine fsm (Join [h, cf'])" by blast
      then show ?thesis using sameConfig_trans[OF s] by (metis list.set_intros(2))
    qed
  qed
qed

lemma exportLines_withLine:
  "exportLines (withLine fs p) q = (if q = p then exportLines fs p + 1 else exportLines fs q)"
  using occurrences_appended[of "[]"] occurrences_appended
  by (auto simp: exportLines_def withLine_def occurrences_Nil_pathExport split: option.splits)

lemma pathAlreadyExists_withLine:
  assumes "scannable fs p"
  shows "pathAlreadyExists (withLine fs p) p pathExport"
proof -
  define old where "old = (case contents fs p of None \<Rightarrow> [] | Some c \<Rightarrow> c)"
  have "list_all (\<lambda>l. length l < MaxScanTokenSize) (scanTokens old)"
    using assms by (auto simp: old_def scannable_def shortLines_def scanTokens_Nil split: option.splits)
  then have "scanFor (scanTokens (old @ [newline] @ pathExport @ [newline])) pathExport"
    using appended_scannable_found by blast
  moreover have "\<not> readDenied (withLine fs p) p" using assms by (simp add: scannable_def shortLines_def withLine_def)
  moreover have "contents (withLine fs p) p = Some (old @ [newline] @ pathExport @ [newline])"
    by (simp add: withLine_def old_def)
  ultimately show ?thesis by (simp add: pathAlreadyExists_def)
qed

text \<open>The candidate paths are pairwise different.\<close>

lemma resolve_Join_elem:
  assumes e: "properElem e"
  shows "resolve (Join [h, e]) = (rooted h, cleanElems (rooted h) (splitSep h) @ [e])"
proof -
  have ne: "e \<noteq> []" and ns: "Separator \<notin> set e" using e by (simp_all add: properElem_def)
  have se: "splitSep e = [e]" using ns by (rule splitSep_single)
  show ?thesis
  proof (cases "h = []")
    case True
    have "\<not> rooted e" using ne ns by (cases e) (auto simp: rooted_def)
    moreover have "cleanElems False [e] = [e]"
      using cleanElems_snoc_proper[OF e, of False "[]"] by (simp add: cleanElems_def)
    ultimately have "resolve e = (False, [e])" by (simp add: resolve_def se)
    moreover have "Join [h, e] = Clean e" using True ne by (simp add: Join_two)
    ultimately show ?thesis using True
      by (simp add: resolve_Clean rooted_def cleanElems_empty)
  next
    case False
    then have "Join [h, e] = Clean (h @ Separator # e)" by (simp add: Join_two)
    then have "resolve (Join [h, e]) = resolve (h @ Separator # e)" by (simp add: resolve_Clean)
    also have "\<dots> = (rooted h, cleanElems (rooted h) (splitSep h @ [e]))"
      using False by (simp add: resolve_def rooted_append splitSep_append_sep se)
    finally show ?thesis by (simp add: cleanElems_snoc_proper[OF e])
  qed
qed

lemma Join_elem_inject:
  "properElem a \<Longrightarrow> properElem b \<Longrightarrow> Join [h, a] = Join [h, b] \<Longrightarrow> a = b"
proof -
  assume a: "properElem a" and b: "properElem b" and j: "Join [h, a] = Join [h, b]"
  have "resolve (Join [h, a]) = resolve (Join [h, b])" using j by simp
  then show "a = b" unfolding resolve_Join_elem[OF a] resolve_Join_elem[OF b] by simp
qed

lemma properElem_configFiles: "cf \<in> set configFiles \<Longrightarrow> properElem cf"
  by (auto simp: configFiles_def properElem_def Separator_def)

lemma distinct_candidatePaths: "distinct (candidatePaths h)"
proof -
  have "inj_on (\<lambda>cf. Join [h, cf]) (set configFiles)"
    using Join_elem_inject properElem_configFiles by (intro inj_onI) blast
  moreover have "distinct configFiles" by (simp add: configFiles_def)
  ultimately show ?thesis unfolding candidatePaths_def by (simp add: distinct_map)
qed

lemma sum_list_one_more:
  "distinct xs \<Longrightarrow> p \<in> set xs \<Longrightarrow> f' p = f p + 1 \<Longrightarrow> \<forall>q\<in>set xs. q \<noteq> p \<longrightarrow> f' q = f q \<Longrightarrow>
   sum_list (map f' xs) = sum_list (map f xs) + (1::nat)"
proof (induction xs)
  case Nil
  then show ?case by simp
next
  case (Cons x xs)
  show ?case
  proof (cases "x = p")
    case True
    then have "p \<notin> set xs" using Cons.prems(1) by simp
    then have "\<forall>q\<in>set xs. f' q = f q" using Cons.prems(4) by auto
    then have m: "map f' xs = map f xs" by simp
    have "sum_list (map f' xs) = sum_list (map f xs)" by (simp only: m)
    then show ?thesis using True Cons.prems(3) by simp
  next
    case False
    then have "sum_list (map f' xs) = sum_list (map f xs) + 1"
      using Cons by simp
    moreover have "f' x = f x" using False Cons.prems(4) by simp
    ultimately show ?thesis by simp
  qed
qed

lemma updateUnixPath_twice:
  assumes z: "\<forall>p\<in>set (candidatePaths h). exportLines fs p = 0 \<and> scannable fs p"
    and u: "updateUnixPath fs h = (None, fs1)"
  shows "updateUnixPath fs1 h = (None, fs1) \<and> sum_list (map (exportLines fs1) (candidatePaths h)) = 1"
proof -
  have no: "\<not> list_ex (\<lambda>cf. pathAlreadyExists fs (Join [h, cf]) pathExport) configFiles"
  proof
    assume "list_ex (\<lambda>cf. pathAlreadyExists fs (Join [h, cf]) pathExport) configFiles"
    then obtain cf where "cf \<in> set configFiles" "pathAlreadyExists fs (Join [h, cf]) pathExport"
      unfolding list_ex_iff by blast
    then have "Join [h, cf] \<in> set (candidatePaths h)" "0 < exportLines fs (Join [h, cf])"
      using pathAlreadyExists_exportLines by (auto simp: candidatePaths_def)
    then show False using z by auto
  qed
  then have "appendToFirst fs h configFiles = (None, fs1)"
    using u by (simp add: updateUnixPath_def)
  then obtain cf fsm where cf: "cf \<in> set configFiles" and s: "sameConfig fs fsm"
    and f: "fs1 = withLine fsm (Join [h, cf])"
    using appendToFirst_None by blast
  define p where "p = Join [h, cf]"
  have pin: "p \<in> set (candidatePaths h)" using cf by (auto simp: candidatePaths_def p_def)
  have "scannable fsm p" using sameConfig_scannable[OF s] z pin by blast
  then have "pathAlreadyExists fs1 p pathExport"
    using pathAlreadyExists_withLine f p_def by simp
  then have "list_ex (\<lambda>cf. pathAlreadyExists fs1 (Join [h, cf]) pathExport) configFiles"
    using cf unfolding list_ex_iff p_def by blast
  then have again: "updateUnixPath fs1 h = (None, fs1)"
    by (simp add: updateUnixPath_def)
  have e: "exportLines fs1 q = (if q = p then exportLines fs p + 1 else exportLines fs q)" for q
    using exportLines_withLine[of fsm p q] sameConfig_exportLines[OF s] f p_def by simp
  have "sum_list (map (exportLines fs1) (candidatePaths h)) = sum_list (map (exportLines fs) (candidatePaths h)) + 1"
    using distinct_candidatePaths pin e by (intro sum_list_one_more) auto
  moreover have "sum_list (map (exportLines fs) (candidatePaths h)) = 0" using z by simp
  ultimately show ?thesis using again by simp
qed

lemma splitLines_length: "l \<in> set (splitLines c) \<Longrightarrow> length l \<le> length c"
proof (induction c arbitrary: l)
  case Nil
  then show ?case by simp
next
  case (Cons x cs)
  obtain y ys where y: "splitLines cs = y # ys" by (cases "splitLines cs") auto
  show ?case
  proof (cases "x = newline")
    case True
    then have "l = [] \<or> l \<in> set (splitLines cs)" using Cons.prems by auto
    then show ?thesis using Cons.IH by fastforce
  next
    case False
    then have "l = x # y \<or> l \<in> set ys" using Cons.prems y by auto
    then show ?thesis
    proof
      assume "l = x # y"
      moreover have "length y \<le> length cs" using Cons.IH[of y] y by simp
      ultimately show ?thesis by simp
    next
      assume "l \<in> set ys"
      then have "length l \<le> length cs" using Cons.IH[of l] y by simp
      then show ?thesis by simp
    qed
  qed
qed

lemma scannable_short:
  assumes "\<not> readDenied fs p" "\<And>c. contents fs p = Some c \<Longrightarrow> length c < MaxScanTokenSize"
  shows "scannable fs p"
proof (cases "contents fs p")
  case None
  then show ?thesis using assms(1) by (simp add: scannable_def shortLines_def)
next
  case (Some c)
  have "length l < MaxScanTokenSize" if "l \<in> set (scanTokens c)" for l
  proof -
    have "length l \<le> length c" using that scanTokens_subset splitLines_length by blast
    then show ?thesis using assms(2)[OF Some] by simp
  qed
  then show ?thesis using Some assms(1) by (simp add: scannable_def shortLines_def list_all_iff)
qed

lemma updateUnixPath_absent:
  assumes "\<forall>p\<in>set (candidatePaths h). exportLines fs p = 0"
  shows "updateUnixPath fs h = appendToFirst fs h configFiles"
proof -
  have "\<not> list_ex (\<lambda>cf. pathAlreadyExists fs (Join [h, cf]) pathExport) configFiles"
  proof
    assume "list_ex (\<lambda>cf. pathAlreadyExists fs (Join [h, cf]) pathExport) configFiles"
    then obtain cf where "cf \<in> set configFiles" "pathAlreadyExists fs (Join [h, cf]) pathExport"
      unfolding list_ex_iff by blast
    then have "Join [h, cf] \<in> set (candidatePaths h)" "0 < exportLines fs (Join [h, cf])"
      using pathAlreadyExists_exportLines by (auto simp: candidatePaths_def)
    then show False using assms by auto
  qed
  then show ?thesis by (simp add: updateUnixPath_def)
qed

lemma plainFs_short_scannable:
  "(\<And>c. f p = Some c \<Longrightarrow> length c < MaxScanTokenSize) \<Longrightarrow> scannable (plainFs f) p"
  by (rule scannable_short) (simp_all add: plainFs_def)

section \<open>Properties of the archive extractor\<close>

text \<open>
  Claim C1. In both routines, with the scratch directory of the installer as target: an
  entry whose destination path does not resolve to a descendant of the target directory is
  skipped, which leaves the state (recorded binary and issued calls) unchanged and lets the
  pass go on with the next entry; and every file-system call that a pass issues, to its end
  or to the error that stops it, acts on the target directory or below it.
\<close>

theorem traversal_guard_skips_and_confines:
  "(\<not> descendant (tempDirOf homeDir) (Join [tempDirOf homeDir, zName f]) \<longrightarrow>
      extractZipEntry (tempDirOf homeDir) binName st (f, io) = (st, None) \<and>
      extractZipEntries (tempDirOf homeDir) binName st ((f, io) # files) =
        extractZipEntries (tempDirOf homeDir) binName st files) \<and>
   (\<not> descendant (tempDirOf homeDir) (Join [tempDirOf homeDir, tName h]) \<longrightarrow>
      extractTarEntry (tempDirOf homeDir) st (h, io) = (st, None) \<and>
      extractTarEntries (tempDirOf homeDir) st ((h, io) # entries) =
        extractTarEntries (tempDirOf homeDir) st entries) \<and>
   safeEffects (tempDirOf homeDir) (snd (extractZip zipArchive (tempDirOf homeDir) binName)) \<and>
   safeEffects (tempDirOf homeDir) (snd (extractTarGz tarArchive (tempDirOf homeDir)))"
proof -
  have t: "properTarget (tempDirOf homeDir)" by (rule properTarget_tempDirOf)
  have z: "extractZipEntry (tempDirOf homeDir) binName st (f, io) = (st, None)"
    if "\<not> descendant (tempDirOf homeDir) (Join [tempDirOf homeDir, zName f])"
    using not_descendant_not_inside[OF t that] by (rule extractZipEntry_skip)
  have r: "extractTarEntry (tempDirOf homeDir) st (h, io) = (st, None)"
    if "\<not> descendant (tempDirOf homeDir) (Join [tempDirOf homeDir, tName h])"
    using not_descendant_not_inside[OF t that] by (rule extractTarEntry_skip)
  show ?thesis
    using z r extractZip_safe[OF t] extractTarGz_safe[OF t] by simp
qed

theorem traversal_guard_skips_and_confines_witness:
  "\<not> descendant (tempDirOf ''/home/u'') (Join [tempDirOf ''/home/u'', ''../../etc/cron.d/job'']) \<and>
   extractZipEntries (tempDirOf ''/home/u'') ''ollama'' \<lparr>binaryPath = [], effects = []\<rparr>
     [zipFile ''../../etc/cron.d/job'' ''evil'', zipFile ''ollama'' ''ELF''] =
   extractZipEntries (tempDirOf ''/home/u'') ''ollama'' \<lparr>binaryPath = [], effects = []\<rparr>
     [zipFile ''ollama'' ''ELF''] \<and>
   extractTarEntries (tempDirOf ''/home/u'') \<lparr>binaryPath = [], effects = []\<rparr>
     [tarFile ''../../etc/cron.d/job'' ''evil'', tarFile ''bin/ollama'' ''ELF''] =
   extractTarEntries (tempDirOf ''/home/u'') \<lparr>binaryPath = [], effects = []\<rparr>
     [tarFile ''bin/ollama'' ''ELF''] \<and>
   snd (extractTarGz (Some \<lparr>tEntries = [tarFile ''../../etc/cron.d/job'' ''evil'', tarFile ''bin/ollama'' ''ELF''],
                            tCorrupt = False\<rparr>) (tempDirOf ''/home/u'')) =
     [MkdirAll ''/home/u/ollama-extract/bin'' 493,
      OpenFileTrunc ''/home/u/ollama-extract/bin/ollama'' 493,
      CopyTo ''/home/u/ollama-extract/bin/ollama'' ''ELF''] \<and>
   within (tempDirOf ''/home/u'') ''/home/u/ollama-extract/bin''"
proof -
  have n: "\<not> descendant (tempDirOf ''/home/u'') (Join [tempDirOf ''/home/u'', ''../../etc/cron.d/job''])"
    by code_simp
  have e: "snd (extractTarGz (Some \<lparr>tEntries = [tarFile ''../../etc/cron.d/job'' ''evil'', tarFile ''bin/ollama'' ''ELF''],
                            tCorrupt = False\<rparr>) (tempDirOf ''/home/u'')) =
     [MkdirAll ''/home/u/ollama-extract/bin'' 493,
      OpenFileTrunc ''/home/u/ollama-extract/bin/ollama'' 493,
      CopyTo ''/home/u/ollama-extract/bin/ollama'' ''ELF'']"
    by code_simp
  note g = traversal_guard_skips_and_confines
    [of "''/home/u''" "fst (zipFile ''../../etc/cron.d/job'' ''evil'')" "''ollama''"
        "\<lparr>binaryPath = [], effects = []\<rparr>" ioOk "[zipFile ''ollama'' ''ELF'']"
        "fst (tarFile ''../../etc/cron.d/job'' ''evil'')" "[tarFile ''bin/ollama'' ''ELF'']"
        None "Some \<lparr>tEntries = [tarFile ''../../etc/cron.d/job'' ''evil'', tarFile ''bin/ollama'' ''ELF''],
                            tCorrupt = False\<rparr>"]
  have "within (tempDirOf ''/home/u'') ''/home/u/ollama-extract/bin''"
    using g e by (simp add: safeEffects_def)
  then show ?thesis using n e g by (simp add: zipFile_def tarFile_def)
qed

text \<open>
  Claim C2, as stated, fails: a zip archive whose only entry is a directory named like the
  binary, and a tar.gz archive whose only entry is a regular file named like the binary at
  a path that leaves the target directory, each contain exactly one entry whose base name
  equals the expected binary name, and extraction fails with binary-not-found.
\<close>

theorem single_named_entry_not_found:
  "Base (zName (fst (zipFile ''ollama/'' []))) = ''ollama'' \<and>
   Base (Join [tempDirOf ''/home/u'', zName (fst (zipFile ''ollama/'' []))]) = ''ollama'' \<and>
   fst (extractZip (Some [zipFile ''ollama/'' []]) (tempDirOf ''/home/u'') ''ollama'') = Inl BinaryNotFound \<and>
   Base (tName (fst (tarFile ''../ollama'' ''ELF''))) = ''ollama'' \<and>
   Base (Join [tempDirOf ''/home/u'', tName (fst (tarFile ''../ollama'' ''ELF''))]) = ''ollama'' \<and>
   fst (extractTarGz (Some \<lparr>tEntries = [tarFile ''../ollama'' ''ELF''], tCorrupt = False\<rparr>)
          (tempDirOf ''/home/u'')) = Inl BinaryNotFound"
  by code_simp

text \<open>
  Claim C2, amended. For an archive of either format in which every file-system call
  succeeds (and, for tar.gz, whose stream ends without a read error): when exactly one entry
  that is extracted as a file (its destination passes the traversal guard, and it is not a
  directory in zip, a regular file in tar.gz) satisfies the binary-matching rule, extraction
  returns the destination path of that entry; when no such entry exists, extraction fails
  with binary-not-found. In both cases the pass has processed every entry: the calls issued
  are those of all entries, in archive order.
\<close>

theorem extraction_result_when_calls_succeed:
  "((\<forall>x\<in>set files. allOk (snd x)) \<longrightarrow>
      (zipMatches tempDir binName files = [p] \<longrightarrow>
         fst (extractZip (Some files) tempDir binName) = Inr p) \<and>
      (zipMatches tempDir binName files = [] \<longrightarrow>
         fst (extractZip (Some files) tempDir binName) = Inl BinaryNotFound) \<and>
      snd (extractZip (Some files) tempDir binName) = concat (map (zipEntryCalls tempDir) files)) \<and>
   ((\<forall>x\<in>set (tEntries stream). allOk (snd x)) \<and> \<not> tCorrupt stream \<longrightarrow>
      (tarMatches tempDir (tEntries stream) = [p] \<longrightarrow>
         fst (extractTarGz (Some stream) tempDir) = Inr p) \<and>
      (tarMatches tempDir (tEntries stream) = [] \<longrightarrow>
         fst (extractTarGz (Some stream) tempDir) = Inl BinaryNotFound) \<and>
      snd (extractTarGz (Some stream) tempDir) = concat (map (tarEntryCalls tempDir) (tEntries stream)))"
  using extractZip_allOk[of files tempDir binName] extractTarGz_allOk[of stream tempDir]
    extractZip_calls[of files tempDir binName] extractTarGz_calls[of stream tempDir]
  by simp

theorem extraction_result_when_calls_succeed_witness:
  "allOk (snd (zipFile ''lib/libggml.so'' ''so'')) \<and> allOk (snd (zipFile ''ollama'' ''ELF'')) \<and>
   zipMatches (tempDirOf ''/home/u'') ''ollama'' [zipFile ''lib/libggml.so'' ''so'', zipFile ''ollama'' ''ELF''] =
     [''/home/u/ollama-extract/ollama''] \<and>
   fst (extractZip (Some [zipFile ''lib/libggml.so'' ''so'', zipFile ''ollama'' ''ELF''])
          (tempDirOf ''/home/u'') ''ollama'') = Inr ''/home/u/ollama-extract/ollama'' \<and>
   allOk (snd (tarFile ''lib/libggml.so'' ''so'')) \<and>
   tarMatches (tempDirOf ''/home/u'') [tarFile ''lib/libggml.so'' ''so''] = [] \<and>
   fst (extractTarGz (Some \<lparr>tEntries = [tarFile ''lib/libggml.so'' ''so''], tCorrupt = False\<rparr>)
          (tempDirOf ''/home/u'')) = Inl BinaryNotFound \<and>
   snd (extractTarGz (Some \<lparr>tEntries = [tarFile ''lib/libggml.so'' ''so''], tCorrupt = False\<rparr>)
          (tempDirOf ''/home/u'')) =
     [MkdirAll ''/home/u/ollama-extract/lib'' 493,
      OpenFileTrunc ''/home/u/ollama-extract/lib/libggml.so'' 493,
      CopyTo ''/home/u/ollama-extract/lib/libggml.so'' ''so'']"
proof -
  have a: "allOk (snd (zipFile ''lib/libggml.so'' ''so''))" "allOk (snd (zipFile ''ollama'' ''ELF''))"
    "allOk (snd (tarFile ''lib/libggml.so'' ''so''))"
    by (simp_all add: allOk_def zipFile_def tarFile_def ioOk_def)
  have m: "zipMatches (tempDirOf ''/home/u'') ''ollama'' [zipFile ''lib/libggml.so'' ''so'', zipFile ''ollama'' ''ELF''] =
     [''/home/u/ollama-extract/ollama'']"
    by code_simp
  have n: "tarMatches (tempDirOf ''/home/u'') [tarFile ''lib/libggml.so'' ''so''] = []"
    by code_simp
  have c: "concat (map (tarEntryCalls (tempDirOf ''/home/u'')) [tarFile ''lib/libggml.so'' ''so'']) =
     [MkdirAll ''/home/u/ollama-extract/lib'' 493,
      OpenFileTrunc ''/home/u/ollama-extract/lib/libggml.so'' 493,
      CopyTo ''/home/u/ollama-extract/lib/libggml.so'' ''so'']"
    by code_simp
  show ?thesis
    using a m n c
      extraction_result_when_calls_succeed
        [of "[zipFile ''lib/libggml.so'' ''so'', zipFile ''ollama'' ''ELF'']" "tempDirOf ''/home/u''"
            "''ollama''" "''/home/u/ollama-extract/ollama''"
            "\<lparr>tEntries = [tarFile ''lib/libggml.so'' ''so''], tCorrupt = False\<rparr>"]
      extraction_result_when_calls_succeed
        [of "[]" "tempDirOf ''/home/u''" "''ollama''" "[]"
            "\<lparr>tEntries = [tarFile ''lib/libggml.so'' ''so''], tCorrupt = False\<rparr>"]
    by simp
qed

text \<open>
  Claim C3, as stated, fails: an entry of a tar.gz archive whose path ends in
  \<open>/bin/ollama\<close> and whose base name is \<open>ollama\<close> is not recorded when it is a
  directory or a symbolic link, and an archive holding only that entry ends in
  binary-not-found.
\<close>

theorem matching_tar_entry_not_recorded:
  "HasSuffix (Join [tempDirOf ''/home/u'', tName (fst (tarDir ''bin/ollama''))]) ''/bin/ollama'' \<and>
   Base (Join [tempDirOf ''/home/u'', tName (fst (tarDir ''bin/ollama''))]) = ''ollama'' \<and>
   extractTarEntry (tempDirOf ''/home/u'') \<lparr>binaryPath = [], effects = []\<rparr> (tarDir ''bin/ollama'') =
     (\<lparr>binaryPath = [], effects = [MkdirAll ''/home/u/ollama-extract/bin/ollama'' 493]\<rparr>, None) \<and>
   fst (extractTarGz (Some \<lparr>tEntries = [tarDir ''bin/ollama''], tCorrupt = False\<rparr>)
          (tempDirOf ''/home/u'')) = Inl BinaryNotFound \<and>
   HasSuffix (Join [tempDirOf ''/home/u'', tName (fst (tarSymlink ''bin/ollama''))]) ''/bin/ollama'' \<and>
   extractTarEntry (tempDirOf ''/home/u'') \<lparr>binaryPath = [], effects = []\<rparr> (tarSymlink ''bin/ollama'') =
     (\<lparr>binaryPath = [], effects = []\<rparr>, None) \<and>
   fst (extractTarGz (Some \<lparr>tEntries = [tarSymlink ''bin/ollama''], tCorrupt = False\<rparr>)
          (tempDirOf ''/home/u'')) = Inl BinaryNotFound"
  by code_simp

text \<open>
  Claim C3, amended. An entry changes the recorded binary path exactly when it is extracted
  as a file and satisfies the matching rule of its format. In the zip routine: the
  destination path passes the traversal guard, the entry is not a directory, its calls
  succeed, and the base name of the destination path equals the expected binary name. In
  the tar.gz routine: the destination path passes the guard, the entry is a regular file,
  its calls succeed, and the destination path ends in \<open>/bin/ollama\<close> or has the base name
  \<open>ollama\<close>. The recorded path is then the destination path of the entry and the pass
  goes on; for every other entry (a directory, a symbolic link or another entry that is not
  a regular file, an entry rejected by the guard, an entry whose write fails) the recorded
  path stays as it was. The name fixed in the tar.gz routine is the binary name of every
  platform whose archive is a tar.gz.
\<close>

theorem binary_matching_rule:
  "binaryPath (fst (extractZipEntry tempDir binName st (f, io))) =
     (if insideTempDir tempDir (Join [tempDir, zName f]) \<and> \<not> zipIsDir f \<and>
         mkdir_ok io \<and> open_ok io \<and> create_ok io \<and> copy_ok io \<and>
         Base (Join [tempDir, zName f]) = binName
      then Join [tempDir, zName f] else binaryPath st) \<and>
   binaryPath (fst (extractTarEntry tempDir st (h, io))) =
     (if insideTempDir tempDir (Join [tempDir, tName h]) \<and> tTypeflag h = TypeReg \<and>
         mkdir_ok io \<and> create_ok io \<and> copy_ok io \<and>
         (HasSuffix (Join [tempDir, tName h]) ''/bin/ollama'' \<or> Base (Join [tempDir, tName h]) = ''ollama'')
      then Join [tempDir, tName h] else binaryPath st) \<and>
   (insideTempDir tempDir (Join [tempDir, zName f]) \<and> \<not> zipIsDir f \<and>
    mkdir_ok io \<and> open_ok io \<and> create_ok io \<and> copy_ok io \<longrightarrow>
      snd (extractZipEntry tempDir binName st (f, io)) = None) \<and>
   (insideTempDir tempDir (Join [tempDir, tName h]) \<and> tTypeflag h = TypeReg \<and>
    mkdir_ok io \<and> create_ok io \<and> copy_ok io \<longrightarrow>
      snd (extractTarEntry tempDir st (h, io)) = None) \<and>
   (archiveFormat (getPlatformConfig goos) = TarGzFormat \<longrightarrow>
      binaryName (getPlatformConfig goos) = ''ollama'')"
proof -
  have z1: "binaryPath (fst (extractZipEntry tempDir binName st (f, io))) =
     (if insideTempDir tempDir (Join [tempDir, zName f]) \<and> \<not> zipIsDir f \<and>
         mkdir_ok io \<and> open_ok io \<and> create_ok io \<and> copy_ok io \<and>
         Base (Join [tempDir, zName f]) = binName
      then Join [tempDir, zName f] else binaryPath st)"
    by (simp add: extractZipEntry_def Let_def)
  have t1: "binaryPath (fst (extractTarEntry tempDir st (h, io))) =
     (if insideTempDir tempDir (Join [tempDir, tName h]) \<and> tTypeflag h = TypeReg \<and>
         mkdir_ok io \<and> create_ok io \<and> copy_ok io \<and>
         (HasSuffix (Join [tempDir, tName h]) ''/bin/ollama'' \<or> Base (Join [tempDir, tName h]) = ''ollama'')
      then Join [tempDir, tName h] else binaryPath st)"
    using TypeReg_neq_TypeDir by (simp add: extractTarEntry_def Let_def)
  have z2: "insideTempDir tempDir (Join [tempDir, zName f]) \<and> \<not> zipIsDir f \<and>
    mkdir_ok io \<and> open_ok io \<and> create_ok io \<and> copy_ok io \<longrightarrow>
      snd (extractZipEntry tempDir binName st (f, io)) = None"
    by (simp add: extractZipEntry_def Let_def)
  have t2: "insideTempDir tempDir (Join [tempDir, tName h]) \<and> tTypeflag h = TypeReg \<and>
    mkdir_ok io \<and> create_ok io \<and> copy_ok io \<longrightarrow>
      snd (extractTarEntry tempDir st (h, io)) = None"
    using TypeReg_neq_TypeDir by (simp add: extractTarEntry_def Let_def)
  have p: "archiveFormat (getPlatformConfig goos) = TarGzFormat \<longrightarrow>
      binaryName (getPlatformConfig goos) = ''ollama''"
    using tar_platform_binaryName[of goos] by blast
  show ?thesis by (intro conjI z1 t1 z2 t2 p)
qed

theorem binary_matching_rule_witness:
  "insideTempDir (tempDirOf ''/home/u'') (Join [tempDirOf ''/home/u'', ''ollama.exe'']) \<and>
   \<not> zipIsDir (fst (zipFile ''ollama.exe'' ''MZ'')) \<and>
   insideTempDir (tempDirOf ''/home/u'') (Join [tempDirOf ''/home/u'', ''bin/ollama'']) \<and>
   tTypeflag (fst (tarFile ''bin/ollama'' ''ELF'')) = TypeReg \<and>
   mkdir_ok ioOk \<and> open_ok ioOk \<and> create_ok ioOk \<and> copy_ok ioOk \<and>
   extractZipEntry (tempDirOf ''/home/u'') ''ollama.exe''
      \<lparr>binaryPath = [], effects = []\<rparr> (zipFile ''ollama.exe'' ''MZ'') =
     (\<lparr>binaryPath = ''/home/u/ollama-extract/ollama.exe'',
       effects = [MkdirAll ''/home/u/ollama-extract'' 493,
                  OpenFileTrunc ''/home/u/ollama-extract/ollama.exe'' 493,
                  CopyTo ''/home/u/ollama-extract/ollama.exe'' ''MZ'']\<rparr>, None) \<and>
   binaryPath (fst (extractTarEntry (tempDirOf ''/home/u'')
      \<lparr>binaryPath = [], effects = []\<rparr> (tarFile ''bin/ollama'' ''ELF''))) = ''/home/u/ollama-extract/bin/ollama'' \<and>
   snd (extractTarEntry (tempDirOf ''/home/u'')
      \<lparr>binaryPath = [], effects = []\<rparr> (tarFile ''bin/ollama'' ''ELF'')) = None \<and>
   binaryPath (fst (extractTarEntry (tempDirOf ''/home/u'')
      \<lparr>binaryPath = ''/home/u/ollama-extract/bin/ollama'', effects = []\<rparr> (tarSymlink ''ollama''))) =
     ''/home/u/ollama-extract/bin/ollama'' \<and>
   archiveFormat (getPlatformConfig ''linux'') = TarGzFormat \<and>
   binaryName (getPlatformConfig ''linux'') = ''ollama''"
proof -
  have j: "Join [tempDirOf ''/home/u'', ''ollama.exe''] = ''/home/u/ollama-extract/ollama.exe''"
    "Join [tempDirOf ''/home/u'', ''bin/ollama''] = ''/home/u/ollama-extract/bin/ollama''"
    by code_simp+
  have h: "insideTempDir (tempDirOf ''/home/u'') (Join [tempDirOf ''/home/u'', ''ollama.exe''])"
    "\<not> zipIsDir (fst (zipFile ''ollama.exe'' ''MZ''))"
    "insideTempDir (tempDirOf ''/home/u'') (Join [tempDirOf ''/home/u'', ''bin/ollama''])"
    "tTypeflag (fst (tarFile ''bin/ollama'' ''ELF'')) = TypeReg"
    "mkdir_ok ioOk" "open_ok ioOk" "create_ok ioOk" "copy_ok ioOk"
    "archiveFormat (getPlatformConfig ''linux'') = TarGzFormat"
    "HasSuffix ''/home/u/ollama-extract/bin/ollama'' ''/bin/ollama''"
    by code_simp+
  have e: "extractZipEntry (tempDirOf ''/home/u'') ''ollama.exe''
      \<lparr>binaryPath = [], effects = []\<rparr> (zipFile ''ollama.exe'' ''MZ'') =
     (\<lparr>binaryPath = ''/home/u/ollama-extract/ollama.exe'',
       effects = [MkdirAll ''/home/u/ollama-extract'' 493,
                  OpenFileTrunc ''/home/u/ollama-extract/ollama.exe'' 493,
                  CopyTo ''/home/u/ollama-extract/ollama.exe'' ''MZ'']\<rparr>, None)"
    by code_simp
  have s: "tTypeflag (fst (tarSymlink ''ollama'')) \<noteq> TypeReg" by code_simp
  have z: "tName (fst (tarFile ''bin/ollama'' ''ELF'')) = ''bin/ollama''"
    "(fst (tarFile ''bin/ollama'' ''ELF''), ioOk) = tarFile ''bin/ollama'' ''ELF''"
    "(fst (tarSymlink ''ollama''), ioOk) = tarSymlink ''ollama''"
    by (simp_all add: tarFile_def tarSymlink_def)
  note r = binary_matching_rule
    [of "tempDirOf ''/home/u''" "''ollama.exe''" "\<lparr>binaryPath = [], effects = []\<rparr>"
        "fst (zipFile ''ollama.exe'' ''MZ'')" ioOk "fst (tarFile ''bin/ollama'' ''ELF'')" "''linux''"]
  note r2 = r[THEN conjunct2, THEN conjunct1, unfolded z j]
  note r4 = r[THEN conjunct2, THEN conjunct2, THEN conjunct2, THEN conjunct1, unfolded z j, THEN mp,
              OF conjI[OF h(3)[unfolded j] conjI[OF h(4) conjI[OF h(5) conjI[OF h(7) h(8)]]]]]
  note r5 = r[THEN conjunct2, THEN conjunct2, THEN conjunct2, THEN conjunct2, THEN mp, OF h(9)]
  have bt: "binaryPath (fst (extractTarEntry (tempDirOf ''/home/u'')
      \<lparr>binaryPath = [], effects = []\<rparr> (tarFile ''bin/ollama'' ''ELF''))) = ''/home/u/ollama-extract/bin/ollama''"
    using r2 h(3)[unfolded j] h(4) h(5) h(7) h(8) h(10) by simp
  note q = binary_matching_rule
    [of "tempDirOf ''/home/u''" "''ollama.exe''" "\<lparr>binaryPath = ''/home/u/ollama-extract/bin/ollama'', effects = []\<rparr>"
        "fst (zipFile ''ollama.exe'' ''MZ'')" ioOk "fst (tarSymlink ''ollama'')" "''linux''",
     THEN conjunct2, THEN conjunct1, unfolded z]
  have bs: "binaryPath (fst (extractTarEntry (tempDirOf ''/home/u'')
      \<lparr>binaryPath = ''/home/u/ollama-extract/bin/ollama'', effects = []\<rparr> (tarSymlink ''ollama''))) =
     ''/home/u/ollama-extract/bin/ollama''"
    using q s by simp
  show ?thesis
    by (intro conjI h(1) h(2) h(3) h(4) h(5) h(6) h(7) h(8) h(9) e bt r4 bs r5)
qed

text \<open>
  Claim C9. A binary path returned without error by either routine passed the traversal
  guard, so it begins with the cleaned target directory followed by a separator; with the
  scratch directory of the installer as target it resolves to a descendant of that
  directory.
\<close>

theorem returned_binary_inside_target:
  "(fst (extractZip zipArchive tempDir binName) = Inr p \<longrightarrow> insideTempDir tempDir p) \<and>
   (fst (extractTarGz tarArchive tempDir) = Inr q \<longrightarrow> insideTempDir tempDir q) \<and>
   (fst (extractZip zipArchive (tempDirOf homeDir) binName) = Inr p' \<longrightarrow>
      descendant (tempDirOf homeDir) p') \<and>
   (fst (extractTarGz tarArchive (tempDirOf homeDir)) = Inr q' \<longrightarrow>
      descendant (tempDirOf homeDir) q')"
proof -
  have z: "insideTempDir d p \<and> (\<exists>n. p = Join [d, n])"
    if "fst (extractZip zipArchive d binName) = Inr p" for d p
  proof -
    from extractZip_Inr[OF that] have "\<exists>es. p \<in> set (zipMatches d binName es)"
      using last_in_set by blast
    then show ?thesis using zipMatches_inside by blast
  qed
  have t: "insideTempDir d q \<and> (\<exists>n. q = Join [d, n])"
    if "fst (extractTarGz tarArchive d) = Inr q" for d q
  proof -
    from extractTarGz_Inr[OF that] have "\<exists>es. q \<in> set (tarMatches d es)"
      using last_in_set by blast
    then show ?thesis using tarMatches_inside by blast
  qed
  have d: "descendant (tempDirOf homeDir) x"
    if "insideTempDir (tempDirOf homeDir) x \<and> (\<exists>n. x = Join [tempDirOf homeDir, n])" for x
    using that guarded_Join[OF properTarget_tempDirOf, of homeDir] by blast
  show ?thesis using z t d by blast
qed

theorem returned_binary_inside_target_witness:
  "fst (extractZip (Some [zipFile ''../ollama'' ''evil'', zipFile ''ollama'' ''ELF''])
          (tempDirOf ''/home/u'') ''ollama'') = Inr ''/home/u/ollama-extract/ollama'' \<and>
   fst (extractTarGz (Some \<lparr>tEntries = [tarFile ''../../bin/ollama'' ''evil'', tarFile ''bin/ollama'' ''ELF''],
                            tCorrupt = False\<rparr>) (tempDirOf ''/home/u'')) = Inr ''/home/u/ollama-extract/bin/ollama'' \<and>
   insideTempDir (tempDirOf ''/home/u'') ''/home/u/ollama-extract/ollama'' \<and>
   insideTempDir (tempDirOf ''/home/u'') ''/home/u/ollama-extract/bin/ollama'' \<and>
   descendant (tempDirOf ''/home/u'') ''/home/u/ollama-extract/ollama'' \<and>
   descendant (tempDirOf ''/home/u'') ''/home/u/ollama-extract/bin/ollama''"
proof -
  have z: "fst (extractZip (Some [zipFile ''../ollama'' ''evil'', zipFile ''ollama'' ''ELF''])
          (tempDirOf ''/home/u'') ''ollama'') = Inr ''/home/u/ollama-extract/ollama''"
    by code_simp
  have t: "fst (extractTarGz (Some \<lparr>tEntries = [tarFile ''../../bin/ollama'' ''evil'', tarFile ''bin/ollama'' ''ELF''],
                            tCorrupt = False\<rparr>) (tempDirOf ''/home/u'')) = Inr ''/home/u/ollama-extract/bin/ollama''"
    by code_simp
  show ?thesis
    using z t returned_binary_inside_target
      [of "Some [zipFile ''../ollama'' ''evil'', zipFile ''ollama'' ''ELF'']" "tempDirOf ''/home/u''"
          "''ollama''" "''/home/u/ollama-extract/ollama''"
          "Some \<lparr>tEntries = [tarFile ''../../bin/ollama'' ''evil'', tarFile ''bin/ollama'' ''ELF''],
                            tCorrupt = False\<rparr>" "''/home/u/ollama-extract/bin/ollama''"
          "''/home/u''" "''/home/u/ollama-extract/ollama''" "''/home/u/ollama-extract/bin/ollama''"]
    by simp
qed

text \<open>
  Claim C10, as stated, fails: in an archive whose entries \<open>bin/ollama\<close> and
  \<open>../ollama\<close>, in this order, are both regular files with the base name of the binary,
  the second is the last entry that satisfies the matching rule, and the path returned is
  that of the first, because the second is rejected by the traversal guard.
\<close>

theorem last_named_entry_not_returned:
  "\<not> zipIsDir (fst (zipFile ''bin/ollama'' ''1'')) \<and> \<not> zipIsDir (fst (zipFile ''../ollama'' ''2'')) \<and>
   Base (Join [tempDirOf ''/home/u'', zName (fst (zipFile ''bin/ollama'' ''1''))]) = ''ollama'' \<and>
   Base (Join [tempDirOf ''/home/u'', zName (fst (zipFile ''../ollama'' ''2''))]) = ''ollama'' \<and>
   Join [tempDirOf ''/home/u'', zName (fst (zipFile ''../ollama'' ''2''))] = ''/home/u/ollama'' \<and>
   fst (extractZip (Some [zipFile ''bin/ollama'' ''1'', zipFile ''../ollama'' ''2''])
          (tempDirOf ''/home/u'') ''ollama'') = Inr ''/home/u/ollama-extract/bin/ollama'' \<and>
   tTypeflag (fst (tarFile ''bin/ollama'' ''1'')) = TypeReg \<and>
   tTypeflag (fst (tarFile ''../ollama'' ''2'')) = TypeReg \<and>
   Base (Join [tempDirOf ''/home/u'', tName (fst (tarFile ''bin/ollama'' ''1''))]) = ''ollama'' \<and>
   Base (Join [tempDirOf ''/home/u'', tName (fst (tarFile ''../ollama'' ''2''))]) = ''ollama'' \<and>
   fst (extractTarGz (Some \<lparr>tEntries = [tarFile ''bin/ollama'' ''1'', tarFile ''../ollama'' ''2''],
                            tCorrupt = False\<rparr>) (tempDirOf ''/home/u'')) =
     Inr ''/home/u/ollama-extract/bin/ollama''"
  by code_simp

text \<open>
  Claim C10, amended. A directory entry of a zip archive, and an entry of a tar.gz archive
  that is not a regular file, never changes the recorded binary path. When a routine returns
  a path, the archive holds at least one entry whose destination path passes the traversal
  guard, that is not a directory (zip) or is a regular file (tar.gz) and that satisfies the
  matching rule, and the path returned is the destination of the last such entry in archive
  order. When every call succeeds (and, for tar.gz, the stream ends without a read error)
  and at least one such entry exists, the routine does return the destination of the last
  of them.
\<close>

theorem only_files_recorded_last_match_wins:
  "(zipIsDir f \<longrightarrow>
      binaryPath (fst (extractZipEntry tempDir binName st (f, io))) = binaryPath st) \<and>
   (tTypeflag h \<noteq> TypeReg \<longrightarrow>
      binaryPath (fst (extractTarEntry tempDir st (h, io))) = binaryPath st) \<and>
   (fst (extractZip zipArchive tempDir binName) = Inr p \<longrightarrow>
      (\<exists>files. zipArchive = Some files \<and> zipMatches tempDir binName files \<noteq> [] \<and>
         p = last (zipMatches tempDir binName files))) \<and>
   (fst (extractTarGz tarArchive tempDir) = Inr q \<longrightarrow>
      (\<exists>stream. tarArchive = Some stream \<and> tarMatches tempDir (tEntries stream) \<noteq> [] \<and>
         q = last (tarMatches tempDir (tEntries stream)))) \<and>
   ((\<forall>x\<in>set files. allOk (snd x)) \<and> zipMatches tempDir binName files \<noteq> [] \<longrightarrow>
      fst (extractZip (Some files) tempDir binName) = Inr (last (zipMatches tempDir binName files))) \<and>
   ((\<forall>x\<in>set (tEntries stream). allOk (snd x)) \<and> \<not> tCorrupt stream \<and>
    tarMatches tempDir (tEntries stream) \<noteq> [] \<longrightarrow>
      fst (extractTarGz (Some stream) tempDir) = Inr (last (tarMatches tempDir (tEntries stream))))"
proof -
  have z: "zipIsDir f \<longrightarrow>
      binaryPath (fst (extractZipEntry tempDir binName st (f, io))) = binaryPath st"
    by (simp add: extractZipEntry_def Let_def)
  have t: "tTypeflag h \<noteq> TypeReg \<longrightarrow>
      binaryPath (fst (extractTarEntry tempDir st (h, io))) = binaryPath st"
    by (simp add: extractTarEntry_def Let_def)
  have a: "(\<forall>x\<in>set files. allOk (snd x)) \<and> zipMatches tempDir binName files \<noteq> [] \<longrightarrow>
      fst (extractZip (Some files) tempDir binName) = Inr (last (zipMatches tempDir binName files))"
    using extractZip_allOk[of files tempDir binName] by simp
  have b: "(\<forall>x\<in>set (tEntries stream). allOk (snd x)) \<and> \<not> tCorrupt stream \<and>
    tarMatches tempDir (tEntries stream) \<noteq> [] \<longrightarrow>
      fst (extractTarGz (Some stream) tempDir) = Inr (last (tarMatches tempDir (tEntries stream)))"
    using extractTarGz_allOk[of stream tempDir] by simp
  have c: "fst (extractZip zipArchive tempDir binName) = Inr p \<longrightarrow>
      (\<exists>files. zipArchive = Some files \<and> zipMatches tempDir binName files \<noteq> [] \<and>
         p = last (zipMatches tempDir binName files))"
    using extractZip_Inr[of zipArchive tempDir binName p] by blast
  have d: "fst (extractTarGz tarArchive tempDir) = Inr q \<longrightarrow>
      (\<exists>stream. tarArchive = Some stream \<and> tarMatches tempDir (tEntries stream) \<noteq> [] \<and>
         q = last (tarMatches tempDir (tEntries stream)))"
    using extractTarGz_Inr[of tarArchive tempDir q] by blast
  show ?thesis by (intro conjI z t c d a b)
qed

theorem only_files_recorded_last_match_wins_witness:
  "zipIsDir \<lparr>zName = ''ollama/'', zModeDir = False, zMode = 493, zData = []\<rparr> \<and>
   binaryPath (fst (extractZipEntry (tempDirOf ''/home/u'') ''ollama'' \<lparr>binaryPath = [], effects = []\<rparr>
      (\<lparr>zName = ''ollama/'', zModeDir = False, zMode = 493, zData = []\<rparr>, ioOk))) = [] \<and>
   tTypeflag (fst (tarDir ''ollama'')) \<noteq> TypeReg \<and>
   binaryPath (fst (extractTarEntry (tempDirOf ''/home/u'') \<lparr>binaryPath = [], effects = []\<rparr>
      (tarDir ''ollama''))) = [] \<and>
   list_all (\<lambda>x. allOk (snd x)) [zipFile ''a/ollama'' ''1'', zipFile ''b/ollama'' ''2'', zipFile ''c/'' []] \<and>
   zipMatches (tempDirOf ''/home/u'') ''ollama''
      [zipFile ''a/ollama'' ''1'', zipFile ''b/ollama'' ''2'', zipFile ''c/'' []] =
     [''/home/u/ollama-extract/a/ollama'', ''/home/u/ollama-extract/b/ollama''] \<and>
   fst (extractZip (Some [zipFile ''a/ollama'' ''1'', zipFile ''b/ollama'' ''2'', zipFile ''c/'' []])
          (tempDirOf ''/home/u'') ''ollama'') = Inr ''/home/u/ollama-extract/b/ollama'' \<and>
   list_all (\<lambda>x. allOk (snd x)) [tarFile ''bin/ollama'' ''1'', tarDir ''x'', tarFile ''x/ollama'' ''2''] \<and>
   tarMatches (tempDirOf ''/home/u'') [tarFile ''bin/ollama'' ''1'', tarDir ''x'', tarFile ''x/ollama'' ''2''] =
     [''/home/u/ollama-extract/bin/ollama'', ''/home/u/ollama-extract/x/ollama''] \<and>
   fst (extractTarGz (Some \<lparr>tEntries = [tarFile ''bin/ollama'' ''1'', tarDir ''x'', tarFile ''x/ollama'' ''2''],
                            tCorrupt = False\<rparr>) (tempDirOf ''/home/u'')) = Inr ''/home/u/ollama-extract/x/ollama''"
proof -
  let ?zs = "[zipFile ''a/ollama'' ''1'', zipFile ''b/ollama'' ''2'', zipFile ''c/'' []]"
  let ?ts = "\<lparr>tEntries = [tarFile ''bin/ollama'' ''1'', tarDir ''x'', tarFile ''x/ollama'' ''2''],
              tCorrupt = False\<rparr>"
  have e: "zipIsDir \<lparr>zName = ''ollama/'', zModeDir = False, zMode = 493, zData = []\<rparr>"
    "tTypeflag (fst (tarDir ''ollama'')) \<noteq> TypeReg"
    "list_all (\<lambda>x. allOk (snd x)) ?zs"
    "zipMatches (tempDirOf ''/home/u'') ''ollama'' ?zs =
     [''/home/u/ollama-extract/a/ollama'', ''/home/u/ollama-extract/b/ollama'']"
    "list_all (\<lambda>x. allOk (snd x)) [tarFile ''bin/ollama'' ''1'', tarDir ''x'', tarFile ''x/ollama'' ''2'']"
    "tarMatches (tempDirOf ''/home/u'') [tarFile ''bin/ollama'' ''1'', tarDir ''x'', tarFile ''x/ollama'' ''2''] =
     [''/home/u/ollama-extract/bin/ollama'', ''/home/u/ollama-extract/x/ollama'']"
    by code_simp+
  have s: "(fst (tarDir ''ollama''), ioOk) = tarDir ''ollama''" by (simp add: tarDir_def)
  note r = only_files_recorded_last_match_wins
      [of "\<lparr>zName = ''ollama/'', zModeDir = False, zMode = 493, zData = []\<rparr>" "tempDirOf ''/home/u''"
          "''ollama''" "\<lparr>binaryPath = [], effects = []\<rparr>" ioOk "fst (tarDir ''ollama'')"
          "Some ?zs" "''/home/u/ollama-extract/b/ollama''"
          "Some ?ts" "''/home/u/ollama-extract/x/ollama''" ?zs ?ts]
  have z1: "binaryPath (fst (extractZipEntry (tempDirOf ''/home/u'') ''ollama'' \<lparr>binaryPath = [], effects = []\<rparr>
      (\<lparr>zName = ''ollama/'', zModeDir = False, zMode = 493, zData = []\<rparr>, ioOk))) = []"
    using r[THEN conjunct1, THEN mp, OF e(1)] by simp
  have t1: "binaryPath (fst (extractTarEntry (tempDirOf ''/home/u'') \<lparr>binaryPath = [], effects = []\<rparr>
      (tarDir ''ollama''))) = []"
    using r[THEN conjunct2, THEN conjunct1, THEN mp, OF e(2)] by (simp add: s)
  have za: "\<forall>x\<in>set ?zs. allOk (snd x)" using e(3) by (simp only: list_all_iff)
  have ta: "\<forall>x\<in>set (tEntries ?ts). allOk (snd x)" using e(5) by (simp add: list_all_iff)
  have zn: "zipMatches (tempDirOf ''/home/u'') ''ollama'' ?zs \<noteq> []" by (simp only: e(4)) simp
  have tn: "tarMatches (tempDirOf ''/home/u'') (tEntries ?ts) \<noteq> []" using e(6) by simp
  have nc: "\<not> tCorrupt ?ts" by simp
  have z2: "fst (extractZip (Some ?zs) (tempDirOf ''/home/u'') ''ollama'') = Inr ''/home/u/ollama-extract/b/ollama''"
    using r[THEN conjunct2, THEN conjunct2, THEN conjunct2, THEN conjunct2, THEN conjunct1, THEN mp,
            OF conjI[OF za zn]] by (simp only: e(4)) simp
  have t2: "fst (extractTarGz (Some ?ts) (tempDirOf ''/home/u'')) = Inr ''/home/u/ollama-extract/x/ollama''"
    using r[THEN conjunct2, THEN conjunct2, THEN conjunct2, THEN conjunct2, THEN conjunct2, THEN mp,
            OF conjI[OF ta conjI[OF nc tn]]] e(6) by simp
  show ?thesis
    by (intro conjI e(1) z1 e(2) t1 e(3) e(4) z2 e(5) e(6) t2)
qed

section \<open>Properties of the PATH updater\<close>

text \<open>
  Claim C8, as stated, fails: a \<open>.zshrc\<close> that already contains the export line verbatim
  but cannot be opened for reading is taken not to contain it, and the updater appends the
  line to it a second time.
\<close>

theorem unreadable_file_gets_second_line:
  "contents zshrcWriteOnly ''/home/u/.zshrc'' = Some (''# rc'' @ [newline] @ pathExport @ [newline]) \<and>
   Contains (''# rc'' @ [newline] @ pathExport @ [newline]) pathExport \<and>
   ''.zshrc'' \<in> set configFiles \<and>
   Join [''/home/u'', ''.zshrc''] = ''/home/u/.zshrc'' \<and>
   fst (updateUnixPath zshrcWriteOnly ''/home/u'') = None \<and>
   contents (snd (updateUnixPath zshrcWriteOnly ''/home/u'')) ''/home/u/.zshrc'' =
     Some (''# rc'' @ [newline] @ pathExport @ [newline] @ [newline] @ pathExport @ [newline]) \<and>
   exportLines (snd (updateUnixPath zshrcWriteOnly ''/home/u'')) ''/home/u/.zshrc'' = 2"
  by code_simp

text \<open>
  Claim C8, amended. If a candidate configuration file can be opened for reading, has no
  line of 64 KiB or more, and contains the export line verbatim, the updater returns success
  and leaves every file as it was. If no candidate file contains the export line, opening a
  candidate path for reading is never refused (neither for a file that exists nor for one
  that the updater creates), no existing candidate file has a line of 64 KiB or more, and a
  first run returns success, then a second run returns success without changing anything,
  and the candidate files then hold exactly one occurrence of the export line.
\<close>

theorem updateUnixPath_idempotent:
  "(configFile \<in> set configFiles \<and> contents fs (Join [homeDir, configFile]) = Some c \<and>
    Contains c pathExport \<and> \<not> readDenied fs (Join [homeDir, configFile]) \<and>
    list_all (\<lambda>l. length l < MaxScanTokenSize) (scanTokens c) \<longrightarrow>
      updateUnixPath fs homeDir = (None, fs)) \<and>
   ((\<forall>p\<in>set (candidatePaths homeDir).
        exportLines fs p = 0 \<and> \<not> readDenied fs p \<and> shortLines fs p) \<and>
    updateUnixPath fs homeDir = (None, fs1) \<longrightarrow>
      updateUnixPath fs1 homeDir = (None, fs1) \<and>
      sum_list (map (exportLines fs1) (candidatePaths homeDir)) = 1)"
proof (intro conjI impI)
  assume a: "configFile \<in> set configFiles \<and> contents fs (Join [homeDir, configFile]) = Some c \<and>
    Contains c pathExport \<and> \<not> readDenied fs (Join [homeDir, configFile]) \<and>
    list_all (\<lambda>l. length l < MaxScanTokenSize) (scanTokens c)"
  then have "scannable fs (Join [homeDir, configFile])"
    by (simp add: scannable_def shortLines_def)
  then show "updateUnixPath fs homeDir = (None, fs)"
    using a updateUnixPath_present[of configFile fs homeDir c] by blast
next
  assume b: "(\<forall>p\<in>set (candidatePaths homeDir).
        exportLines fs p = 0 \<and> \<not> readDenied fs p \<and> shortLines fs p) \<and>
    updateUnixPath fs homeDir = (None, fs1)"
  then have z: "\<forall>p\<in>set (candidatePaths homeDir). exportLines fs p = 0 \<and> scannable fs p"
    by (simp add: scannable_def)
  have u: "updateUnixPath fs homeDir = (None, fs1)" using b by blast
  show "updateUnixPath fs1 homeDir = (None, fs1)"
    using updateUnixPath_twice[OF z u] by blast
  show "sum_list (map (exportLines fs1) (candidatePaths homeDir)) = 1"
    using updateUnixPath_twice[OF z u] by blast
qed

theorem updateUnixPath_idempotent_witness:
  "''.zshrc'' \<in> set configFiles \<and>
   contents zshrcWithLine (Join [''/home/u'', ''.zshrc'']) = Some (''# rc'' @ [newline] @ pathExport @ [newline]) \<and>
   Contains (''# rc'' @ [newline] @ pathExport @ [newline]) pathExport \<and>
   \<not> readDenied zshrcWithLine (Join [''/home/u'', ''.zshrc'']) \<and>
   list_all (\<lambda>l. length l < MaxScanTokenSize) (scanTokens (''# rc'' @ [newline] @ pathExport @ [newline])) \<and>
   fst (updateUnixPath zshrcWithLine ''/home/u'') = None \<and>
   list_all (\<lambda>p. exportLines bashrcOnly p = 0 \<and> \<not> readDenied bashrcOnly p \<and> shortLines bashrcOnly p)
     (candidatePaths ''/home/u'') \<and>
   fst (updateUnixPath bashrcOnly ''/home/u'') = None \<and>
   fst (updateUnixPath (snd (updateUnixPath bashrcOnly ''/home/u'')) ''/home/u'') = None \<and>
   sum_list (map (exportLines (snd (updateUnixPath bashrcOnly ''/home/u''))) (candidatePaths ''/home/u'')) = 1 \<and>
   map (contents (snd (updateUnixPath bashrcOnly ''/home/u''))) (candidatePaths ''/home/u'') =
     [None, Some ([newline] @ pathExport @ [newline]), Some ''# rc'', None]"
proof -
  have a: "''.zshrc'' \<in> set configFiles"
    "contents zshrcWithLine (Join [''/home/u'', ''.zshrc'']) = Some (''# rc'' @ [newline] @ pathExport @ [newline])"
    "Contains (''# rc'' @ [newline] @ pathExport @ [newline]) pathExport"
    "\<not> readDenied zshrcWithLine (Join [''/home/u'', ''.zshrc''])"
    by code_simp+
  have sc: "scannable zshrcWithLine (Join [''/home/u'', ''.zshrc''])"
    unfolding zshrcWithLine_def
    by (rule plainFs_short_scannable)
      (auto simp: MaxScanTokenSize_def pathExport_def split: if_splits)
  have a5: "list_all (\<lambda>l. length l < MaxScanTokenSize) (scanTokens (''# rc'' @ [newline] @ pathExport @ [newline]))"
    using sc a(2) by (simp add: scannable_def shortLines_def)
  have z: "list_all (\<lambda>p. exportLines bashrcOnly p = 0) (candidatePaths ''/home/u'')"
    by code_simp
  have s: "scannable bashrcOnly p" for p
    unfolding bashrcOnly_def
    by (rule plainFs_short_scannable) (auto simp: MaxScanTokenSize_def split: if_splits)
  have b1: "\<forall>p\<in>set (candidatePaths ''/home/u'').
      exportLines bashrcOnly p = 0 \<and> \<not> readDenied bashrcOnly p \<and> shortLines bashrcOnly p"
    using z s by (simp add: list_all_iff scannable_def)
  have ab: "updateUnixPath bashrcOnly ''/home/u'' = appendToFirst bashrcOnly ''/home/u'' configFiles"
    using z by (intro updateUnixPath_absent) (simp add: list_all_iff)
  have r: "fst (appendToFirst bashrcOnly ''/home/u'' configFiles) = None"
    "map (contents (snd (appendToFirst bashrcOnly ''/home/u'' configFiles))) (candidatePaths ''/home/u'') =
     [None, Some ([newline] @ pathExport @ [newline]), Some ''# rc'', None]"
    by code_simp+
  have b2: "updateUnixPath bashrcOnly ''/home/u'' = (None, snd (updateUnixPath bashrcOnly ''/home/u''))"
    using r(1) ab by (metis prod.collapse)
  note t1 = updateUnixPath_idempotent
    [of "''.zshrc''" zshrcWithLine "''/home/u''" "''# rc'' @ [newline] @ pathExport @ [newline]" _,
     THEN conjunct1, THEN mp, OF conjI[OF a(1) conjI[OF a(2) conjI[OF a(3) conjI[OF a(4) a5]]]]]
  note t2 = updateUnixPath_idempotent
    [of _ bashrcOnly "''/home/u''" _ "snd (updateUnixPath bashrcOnly ''/home/u'')",
     THEN conjunct2, THEN mp, OF conjI[OF b1 b2]]
  have c1: "fst (updateUnixPath zshrcWithLine ''/home/u'') = None" using t1 by simp
  have c2: "fst (updateUnixPath (snd (updateUnixPath bashrcOnly ''/home/u'')) ''/home/u'') = None"
    using t2 by simp
  have c3: "fst (updateUnixPath bashrcOnly ''/home/u'') = None" using r(1) by (simp only: ab)
  have c4: "list_all (\<lambda>p. exportLines bashrcOnly p = 0 \<and> \<not> readDenied bashrcOnly p \<and> shortLines bashrcOnly p)
     (candidatePaths ''/home/u'')"
    using b1 by (simp add: list_all_iff)
  show ?thesis
    by (intro conjI a a5 c1 c2 c3 c4 t2[THEN conjunct2] r(2)[folded ab])
qed

text \<open>
  A line of 64 KiB or more ends the scan of \<open>pathAlreadyExists\<close>: the export line that
  follows it is not seen, and the updater appends it again.
\<close>

lemma scanTokens_long_line:
  "scanTokens (replicate MaxScanTokenSize (CHR ''a'') @ [newline] @ pathExport @ [newline]) =
     [replicate MaxScanTokenSize (CHR ''a''), pathExport]"
proof -
  have "newline \<notin> set (replicate MaxScanTokenSize (CHR ''a''))" by (simp add: newline_def)
  then have "splitLines (replicate MaxScanTokenSize (CHR ''a'')) = [replicate MaxScanTokenSize (CHR ''a'')]"
    by (rule splitLines_single)
  then show ?thesis using scanTokens_appended[of "replicate MaxScanTokenSize (CHR ''a'')"] by simp
qed

theorem long_line_hides_export_line:
  "Contains (replicate MaxScanTokenSize (CHR ''a'') @ [newline] @ pathExport @ [newline]) pathExport \<and>
   \<not> pathAlreadyExists zshrcLongLine ''/home/u/.zshrc'' pathExport \<and>
   fst (updateUnixPath zshrcLongLine ''/home/u'') = None \<and>
   exportLines (snd (updateUnixPath zshrcLongLine ''/home/u'')) ''/home/u/.zshrc'' = 2"
proof -
  let ?long = "replicate MaxScanTokenSize (CHR ''a'')"
  let ?c = "?long @ [newline] @ pathExport @ [newline]"
  have j: "map (\<lambda>cf. Join [''/home/u'', cf]) configFiles =
      [''/home/u/.zshrc'', ''/home/u/.bash_profile'', ''/home/u/.bashrc'', ''/home/u/.profile'']"
    by code_simp
  have jz: "Join [''/home/u'', ''.zshrc''] = ''/home/u/.zshrc''"
    "Join [''/home/u'', ''.bash_profile''] = ''/home/u/.bash_profile''"
    "Join [''/home/u'', ''.bashrc''] = ''/home/u/.bashrc''"
    "Join [''/home/u'', ''.profile''] = ''/home/u/.profile''"
    using j by (simp_all add: configFiles_def)
  have c: "contents zshrcLongLine p = (if p = ''/home/u/.zshrc'' then Some ?c else None)" for p
    by (simp add: zshrcLongLine_def plainFs_def)
  have f: "readDenied zshrcLongLine = (\<lambda>p. False)" "appendDenied zshrcLongLine = (\<lambda>p. False)"
    "writeFails zshrcLongLine = (\<lambda>p. False)"
    by (simp_all add: zshrcLongLine_def plainFs_def)
  have "Contains ?c (pathExport)"
    using Contains_iff[of ?c pathExport] by (metis append.assoc)
  moreover have sf: "\<not> scanFor (scanTokens ?c) pathExport"
    unfolding scanTokens_long_line by simp
  have n: "\<not> pathAlreadyExists zshrcLongLine p pathExport" for p
    using sf by (simp add: pathAlreadyExists_def c f)
  moreover note n[of "''/home/u/.zshrc''"]
  moreover have u: "updateUnixPath zshrcLongLine ''/home/u'' = (None, withLine zshrcLongLine ''/home/u/.zshrc'')"
    using n by (simp add: updateUnixPath_def list_ex_iff configFiles_def jz fileExists_def c
        appendToFile_def f withLine_def Let_def)
  moreover have "exportLines (withLine zshrcLongLine ''/home/u/.zshrc'') ''/home/u/.zshrc'' = 2"
  proof -
    have "occurrences ?long pathExport = 0"
    proof (rule ccontr)
      assume "occurrences ?long pathExport \<noteq> 0"
      then have "Contains ?long pathExport" by (simp add: occurrences_pos)
      then obtain ps ss where "?long = ps @ pathExport @ ss" using Contains_iff by blast
      then have "set pathExport \<subseteq> set ?long" by (metis set_append sup_ge1 sup_ge2 subset_trans)
      then show False by (auto simp: pathExport_def)
    qed
    then have "occurrences ?c pathExport = 1" using occurrences_appended[of ?long] by simp
    then have "exportLines zshrcLongLine ''/home/u/.zshrc'' = 1" by (simp add: exportLines_def c)
    then show ?thesis by (simp add: exportLines_withLine)
  qed
  ultimately show ?thesis by simp
qed

section \<open>Properties of the orchestrator\<close>

lemma downloadFile_bad_status:
  "httpOutcome w = Status code \<Longrightarrow> code \<noteq> httpOK \<Longrightarrow>
   downloadFile w url filePath = (Some (BadStatus code), [HttpGet url])"
  by (simp add: downloadFile_def)

lemma installOllama_download_error:
  assumes "homeDirResult w = Some homeDir"
    and "downloadFile w url (tempFileOf w homeDir) = (Some err, devs)"
  shows "installOllama w url = (Some (DownloadFailed err), devs @ [Remove (tempFileOf w homeDir)], configFs w)"
  using assms by (simp add: installOllama_def Let_def)

lemma main_install_error:
  assumes "getLatestOllamaVersion w = (Inr version, aevs)"
    and "installOllama w (getDownloadURL (hostOS w) version) = (Some err, evs, fs)"
  shows "main w =
     (1, Print (DetectedPlatform (hostOS w)) # aevs @
           [Print (LatestVersion version), Print (DownloadURL (getDownloadURL (hostOS w) version))] @
           evs @ [Print (InstallationFailed err)], fs)"
  using assms by (simp add: main_def Let_def)

lemma main_install_ok:
  assumes "fst (getLatestOllamaVersion w) = Inr version"
    and "fst (installOllama w (getDownloadURL (hostOS w) version)) = None"
  shows "fst (main w) = 0"
  using assms by (auto simp: main_def Let_def split: prod.splits sum.splits option.splits)

lemma Extract_not_in_download: "Extract e \<notin> set (snd (downloadFile w url filePath))"
  by (auto simp: downloadFile_def split: http_outcome.splits)

text \<open>
  Claim C6. When the download request is answered with a status other than 200, the
  downloader returns a download error, \<open>installOllama\<close> returns it wrapped having issued
  only the request and then the removal of the temporary archive (no call of the bin
  directory, extraction, copy or PATH stages), and \<open>main\<close> exits with status 1. The same
  holds for every error of the downloader, also one after the temporary archive was
  created: the calls of the download are followed by the removal of the temporary archive
  and by nothing else.
\<close>

theorem download_failure_aborts_and_cleans_up:
  "(homeDirResult w = Some homeDir \<and> httpOutcome w = Status code \<and> code \<noteq> httpOK \<longrightarrow>
      downloadFile w url (tempFileOf w homeDir) = (Some (BadStatus code), [HttpGet url]) \<and>
      installOllama w url =
        (Some (DownloadFailed (BadStatus code)), [HttpGet url, Remove (tempFileOf w homeDir)], configFs w) \<and>
      (getLatestOllamaVersion w = (Inr version, aevs) \<longrightarrow>
         main w =
           (1, Print (DetectedPlatform (hostOS w)) # aevs @
                 [Print (LatestVersion version), Print (DownloadURL (getDownloadURL (hostOS w) version)),
                  HttpGet (getDownloadURL (hostOS w) version), Remove (tempFileOf w homeDir),
                  Print (InstallationFailed (DownloadFailed (BadStatus code)))],
            configFs w))) \<and>
   (homeDirResult w = Some homeDir \<and> downloadFile w url (tempFileOf w homeDir) = (Some err, devs) \<longrightarrow>
      installOllama w url =
        (Some (DownloadFailed err), devs @ [Remove (tempFileOf w homeDir)], configFs w) \<and>
      (\<forall>e. Extract e \<notin> set (devs @ [Remove (tempFileOf w homeDir)])))"
proof -
  have a: "downloadFile w u (tempFileOf w homeDir) = (Some (BadStatus code), [HttpGet u])"
    if "httpOutcome w = Status code" "code \<noteq> httpOK" for u
    using that by (rule downloadFile_bad_status)
  have b: "installOllama w u =
        (Some (DownloadFailed (BadStatus code)), [HttpGet u, Remove (tempFileOf w homeDir)], configFs w)"
    if "homeDirResult w = Some homeDir" "httpOutcome w = Status code" "code \<noteq> httpOK" for u
    using installOllama_download_error[OF that(1) a[OF that(2,3)]] by simp
  have c: "main w =
           (1, Print (DetectedPlatform (hostOS w)) # aevs @
                 [Print (LatestVersion version), Print (DownloadURL (getDownloadURL (hostOS w) version)),
                  HttpGet (getDownloadURL (hostOS w) version), Remove (tempFileOf w homeDir),
                  Print (InstallationFailed (DownloadFailed (BadStatus code)))],
            configFs w)"
    if "homeDirResult w = Some homeDir" "httpOutcome w = Status code" "code \<noteq> httpOK"
      "getLatestOllamaVersion w = (Inr version, aevs)"
    using main_install_error[OF that(4) b[OF that(1,2,3)]] by simp
  have d: "\<forall>e. Extract e \<notin> set (devs @ [Remove (tempFileOf w homeDir)])"
    if "downloadFile w url (tempFileOf w homeDir) = (Some err, devs)"
    using Extract_not_in_download[of _ w url "tempFileOf w homeDir"] that by simp
  show ?thesis using a b c d installOllama_download_error by blast
qed

theorem download_failure_aborts_and_cleans_up_witness:
  "homeDirResult (linuxWorld\<lparr>httpOutcome := Status 404\<rparr>) = Some ''/home/u'' \<and>
   httpOutcome (linuxWorld\<lparr>httpOutcome := Status 404\<rparr>) = Status 404 \<and>
   (404::nat) \<noteq> httpOK \<and>
   fst (installOllama (linuxWorld\<lparr>httpOutcome := Status 404\<rparr>) ''https://example.org/ollama.tgz'') =
     Some (DownloadFailed (BadStatus 404)) \<and>
   fst (snd (installOllama (linuxWorld\<lparr>httpOutcome := Status 404\<rparr>) ''https://example.org/ollama.tgz'')) =
     [HttpGet ''https://example.org/ollama.tgz'', Remove ''/home/u/ollama.tgz''] \<and>
   fst (getLatestOllamaVersion (linuxWorld\<lparr>httpOutcome := Status 404\<rparr>)) = Inr ''v0.5.1'' \<and>
   fst (main (linuxWorld\<lparr>httpOutcome := Status 404\<rparr>)) = 1 \<and>
   downloadFile (linuxWorld\<lparr>saveOk := False\<rparr>) ''https://example.org/ollama.tgz'' ''/home/u/ollama.tgz'' =
     (Some SaveFailed, [HttpGet ''https://example.org/ollama.tgz'', CreateFile ''/home/u/ollama.tgz'',
                        SaveBody ''/home/u/ollama.tgz'']) \<and>
   fst (snd (installOllama (linuxWorld\<lparr>saveOk := False\<rparr>) ''https://example.org/ollama.tgz'')) =
     [HttpGet ''https://example.org/ollama.tgz'', CreateFile ''/home/u/ollama.tgz'',
      SaveBody ''/home/u/ollama.tgz'', Remove ''/home/u/ollama.tgz'']"
proof -
  let ?w = "linuxWorld\<lparr>httpOutcome := Status 404\<rparr>"
  let ?v = "linuxWorld\<lparr>saveOk := False\<rparr>"
  let ?u = "''https://example.org/ollama.tgz''"
  have h: "homeDirResult ?w = Some ''/home/u''" "httpOutcome ?w = Status 404" "(404::nat) \<noteq> httpOK"
    "homeDirResult ?v = Some ''/home/u''"
    by (simp_all add: linuxWorld_def httpOK_def)
  have t: "tempFileOf ?w ''/home/u'' = ''/home/u/ollama.tgz''" "tempFileOf ?v ''/home/u'' = ''/home/u/ollama.tgz''"
    by code_simp+
  have g: "getLatestOllamaVersion ?w = (Inr ''v0.5.1'', [ApiGet])"
    by (simp add: getLatestOllamaVersion_def linuxWorld_def httpOK_def)
  have s: "downloadFile ?v ?u (tempFileOf ?v ''/home/u'') =
     (Some SaveFailed, [HttpGet ?u, CreateFile ''/home/u/ollama.tgz'', SaveBody ''/home/u/ollama.tgz''])"
    unfolding t by (simp add: downloadFile_def linuxWorld_def httpOK_def)
  note c1 = download_failure_aborts_and_cleans_up
    [of ?w "''/home/u''" 404 ?u "''v0.5.1''" "[ApiGet]" _ _, THEN conjunct1, THEN mp,
     OF conjI[OF h(1) conjI[OF h(2) h(3)]], unfolded t]
  note c2 = download_failure_aborts_and_cleans_up
    [of ?v "''/home/u''" _ ?u _ _ SaveFailed
        "[HttpGet ?u, CreateFile ''/home/u/ollama.tgz'', SaveBody ''/home/u/ollama.tgz'']",
     THEN conjunct2, THEN mp, OF conjI[OF h(4) s], unfolded t]
  have m: "fst (main ?w) = 1"
    using c1[THEN conjunct2, THEN conjunct2, THEN mp, OF g] by simp
  have i1: "fst (installOllama ?w ?u) = Some (DownloadFailed (BadStatus 404))"
    "fst (snd (installOllama ?w ?u)) = [HttpGet ?u, Remove ''/home/u/ollama.tgz'']"
    using c1[THEN conjunct2, THEN conjunct1] by simp_all
  have i2: "fst (snd (installOllama ?v ?u)) =
     [HttpGet ?u, CreateFile ''/home/u/ollama.tgz'', SaveBody ''/home/u/ollama.tgz'', Remove ''/home/u/ollama.tgz'']"
    using c2[THEN conjunct1] by simp
  have g1: "fst (getLatestOllamaVersion ?w) = Inr ''v0.5.1''" using g by simp
  show ?thesis
    by (intro conjI h(1) h(2) h(3) i1 g1 m s[unfolded t] i2)
qed

lemma installSteps_path_warning:
  assumes "hostOS w \<noteq> ''windows''" "mkdirBinOk w"
    and "extractAndInstall w (tempFileOf w homeDir) (tempDirOf homeDir) (finalPathOf w homeDir)
           (getPlatformConfig (hostOS w)) = (None, evs)"
    and "updatePath w homeDir = (Some err, uevs, fs)"
  shows "installSteps w homeDir =
     (None, Mkdir (binDirOf w homeDir) executableMode # evs @ uevs @
        [Print (WarningPathUpdate err), Print (InstalledTo (finalPathOf w homeDir)), Print RestartTerminal], fs)"
  using assms by (simp add: installSteps_def Let_def)

lemma installSteps_ok:
  assumes "mkdirBinOk w"
    and "fst (extractAndInstall w (tempFileOf w homeDir) (tempDirOf homeDir) (finalPathOf w homeDir)
           (getPlatformConfig (hostOS w))) = None"
  shows "fst (installSteps w homeDir) = None"
  using assms by (auto simp: installSteps_def Let_def split: prod.splits option.splits)

lemma installOllama_steps:
  assumes "homeDirResult w = Some homeDir"
    and "downloadFile w url (tempFileOf w homeDir) = (None, devs)"
    and "installSteps w homeDir = (r, sevs, fs)"
  shows "installOllama w url =
     (r, devs @ sevs @ [RemoveAll (tempDirOf homeDir), Remove (tempFileOf w homeDir)], fs)"
  using assms by (simp add: installOllama_def Let_def)

lemma downloadFile_url_irrelevant:
  "fst (downloadFile w url filePath) = fst (downloadFile w url' filePath)"
  by (simp add: downloadFile_def split: http_outcome.splits)

lemma installOllama_ok:
  assumes "homeDirResult w = Some homeDir"
    and "fst (downloadFile w url (tempFileOf w homeDir)) = None"
    and "mkdirBinOk w"
    and "fst (extractAndInstall w (tempFileOf w homeDir) (tempDirOf homeDir) (finalPathOf w homeDir)
           (getPlatformConfig (hostOS w))) = None"
  shows "fst (installOllama w url) = None"
proof -
  obtain devs where d: "downloadFile w url (tempFileOf w homeDir) = (None, devs)"
    using assms(2) by (metis prod.collapse)
  obtain r sevs fs where s: "installSteps w homeDir = (r, sevs, fs)"
    by (cases "installSteps w homeDir")
  then have "r = None" using installSteps_ok[OF assms(3,4)] by simp
  then show ?thesis using installOllama_steps[OF assms(1) d s] by simp
qed

text \<open>
  Claim C7. When the download, the creation of the bin directory and \<open>extractAndInstall\<close>
  (extraction, copy of the binary, permission bits) have succeeded, \<open>installOllama\<close> returns
  no error and \<open>main\<close> exits with status 0, whatever the PATH update does. On a host other
  than Windows, where the PATH update runs, an error it returns is printed as a warning and
  the report of the installation follows.
\<close>

theorem path_update_failure_is_a_warning:
  "(homeDirResult w = Some homeDir \<and>
    fst (downloadFile w url (tempFileOf w homeDir)) = None \<and> mkdirBinOk w \<and>
    fst (extractAndInstall w (tempFileOf w homeDir) (tempDirOf homeDir) (finalPathOf w homeDir)
           (getPlatformConfig (hostOS w))) = None \<longrightarrow>
      fst (installOllama w url) = None \<and>
      (fst (getLatestOllamaVersion w) = Inr version \<longrightarrow> fst (main w) = 0)) \<and>
   (hostOS w \<noteq> ''windows'' \<and> homeDirResult w = Some homeDir \<and>
    fst (downloadFile w url (tempFileOf w homeDir)) = None \<and> mkdirBinOk w \<and>
    fst (extractAndInstall w (tempFileOf w homeDir) (tempDirOf homeDir) (finalPathOf w homeDir)
           (getPlatformConfig (hostOS w))) = None \<and>
    fst (updatePath w homeDir) = Some err \<longrightarrow>
      Print (WarningPathUpdate err) \<in> set (fst (snd (installOllama w url))) \<and>
      Print (InstalledTo (finalPathOf w homeDir)) \<in> set (fst (snd (installOllama w url))))"
proof (intro conjI impI)
  assume a: "homeDirResult w = Some homeDir \<and>
    fst (downloadFile w url (tempFileOf w homeDir)) = None \<and> mkdirBinOk w \<and>
    fst (extractAndInstall w (tempFileOf w homeDir) (tempDirOf homeDir) (finalPathOf w homeDir)
           (getPlatformConfig (hostOS w))) = None"
  then show "fst (installOllama w url) = None" using installOllama_ok by blast
  assume v: "fst (getLatestOllamaVersion w) = Inr version"
  let ?u = "getDownloadURL (hostOS w) version"
  have "fst (downloadFile w ?u (tempFileOf w homeDir)) = None"
    using a downloadFile_url_irrelevant[of w ?u _ url] by simp
  then have "fst (installOllama w ?u) = None" using a installOllama_ok by blast
  then show "fst (main w) = 0" using main_install_ok[OF v] by simp
next
  assume a: "hostOS w \<noteq> ''windows'' \<and> homeDirResult w = Some homeDir \<and>
    fst (downloadFile w url (tempFileOf w homeDir)) = None \<and> mkdirBinOk w \<and>
    fst (extractAndInstall w (tempFileOf w homeDir) (tempDirOf homeDir) (finalPathOf w homeDir)
           (getPlatformConfig (hostOS w))) = None \<and>
    fst (updatePath w homeDir) = Some err"
  obtain evs where e: "extractAndInstall w (tempFileOf w homeDir) (tempDirOf homeDir) (finalPathOf w homeDir)
           (getPlatformConfig (hostOS w)) = (None, evs)"
    using a by (metis prod.collapse)
  obtain uevs fs where u: "updatePath w homeDir = (Some err, uevs, fs)"
    using a by (metis prod.collapse)
  obtain devs where d: "downloadFile w url (tempFileOf w homeDir) = (None, devs)"
    using a by (metis prod.collapse)
  have s: "installSteps w homeDir =
     (None, Mkdir (binDirOf w homeDir) executableMode # evs @ uevs @
        [Print (WarningPathUpdate err), Print (InstalledTo (finalPathOf w homeDir)), Print RestartTerminal], fs)"
    using installSteps_path_warning[OF _ _ e u] a by blast
  have i: "installOllama w url =
     (None, devs @ (Mkdir (binDirOf w homeDir) executableMode # evs @ uevs @
        [Print (WarningPathUpdate err), Print (InstalledTo (finalPathOf w homeDir)), Print RestartTerminal]) @
        [RemoveAll (tempDirOf homeDir), Remove (tempFileOf w homeDir)], fs)"
    using installOllama_steps[OF _ d s] a by blast
  show "Print (WarningPathUpdate err) \<in> set (fst (snd (installOllama w url)))"
    using i by simp
  show "Print (InstalledTo (finalPathOf w homeDir)) \<in> set (fst (snd (installOllama w url)))"
    using i by simp
qed

theorem path_update_failure_is_a_warning_witness:
  "hostOS (linuxWorld\<lparr>configFs := readOnlyHome\<rparr>) \<noteq> ''windows'' \<and>
   homeDirResult (linuxWorld\<lparr>configFs := readOnlyHome\<rparr>) = Some ''/home/u'' \<and>
   mkdirBinOk (linuxWorld\<lparr>configFs := readOnlyHome\<rparr>) \<and>
   fst (updateUnixPath readOnlyHome ''/home/u'') = Some NoConfigFileUpdated \<and>
   fst (updatePath (linuxWorld\<lparr>configFs := readOnlyHome\<rparr>) ''/home/u'') =
     Some (UnixPathError NoConfigFileUpdated) \<and>
   finalPathOf (linuxWorld\<lparr>configFs := readOnlyHome\<rparr>) ''/home/u'' = ''/home/u/bin/ollama'' \<and>
   fst (installOllama (linuxWorld\<lparr>configFs := readOnlyHome\<rparr>) ''https://example.org/ollama.tgz'') = None \<and>
   Print (WarningPathUpdate (UnixPathError NoConfigFileUpdated)) \<in>
     set (fst (snd (installOllama (linuxWorld\<lparr>configFs := readOnlyHome\<rparr>) ''https://example.org/ollama.tgz''))) \<and>
   Print (InstalledTo ''/home/u/bin/ollama'') \<in>
     set (fst (snd (installOllama (linuxWorld\<lparr>configFs := readOnlyHome\<rparr>) ''https://example.org/ollama.tgz''))) \<and>
   fst (getLatestOllamaVersion (linuxWorld\<lparr>configFs := readOnlyHome\<rparr>)) = Inr ''v0.5.1'' \<and>
   fst (main (linuxWorld\<lparr>configFs := readOnlyHome\<rparr>)) = 0"
proof -
  let ?w = "linuxWorld\<lparr>configFs := readOnlyHome\<rparr>"
  let ?u = "''https://example.org/ollama.tgz''"
  have h: "hostOS ?w \<noteq> ''windows''" "homeDirResult ?w = Some ''/home/u''" "mkdirBinOk ?w"
    "configFs ?w = readOnlyHome" "hostOS ?w = ''linux''"
    by (simp_all add: linuxWorld_def)
  have d: "fst (downloadFile ?w ?u (tempFileOf ?w ''/home/u'')) = None"
    by (simp add: downloadFile_def linuxWorld_def httpOK_def)
  have f: "finalPathOf ?w ''/home/u'' = ''/home/u/bin/ollama''"
    by code_simp
  have e: "fst (extractAndInstall ?w (tempFileOf ?w ''/home/u'') (tempDirOf ''/home/u'')
      (finalPathOf ?w ''/home/u'') (getPlatformConfig (hostOS ?w))) = None"
    by code_simp
  have z: "list_all (\<lambda>p. exportLines readOnlyHome p = 0) (candidatePaths ''/home/u'')"
    by code_simp
  have ab: "updateUnixPath readOnlyHome ''/home/u'' = appendToFirst readOnlyHome ''/home/u'' configFiles"
    using z by (intro updateUnixPath_absent) (simp add: list_all_iff)
  have "fst (appendToFirst readOnlyHome ''/home/u'' configFiles) = Some NoConfigFileUpdated"
    by code_simp
  then have p: "fst (updateUnixPath readOnlyHome ''/home/u'') = Some NoConfigFileUpdated"
    by (simp only: ab)
  have up: "fst (updatePath ?w ''/home/u'') = Some (UnixPathError NoConfigFileUpdated)"
    using p h(4,5) by (auto simp: updatePath_def split: prod.splits option.splits)
  have g: "fst (getLatestOllamaVersion ?w) = Inr ''v0.5.1''"
    by (simp add: getLatestOllamaVersion_def linuxWorld_def httpOK_def)
  note t = path_update_failure_is_a_warning
    [of ?w "''/home/u''" ?u "''v0.5.1''" "UnixPathError NoConfigFileUpdated"]
  note t1 = t[THEN conjunct1, THEN mp, OF conjI[OF h(2) conjI[OF d conjI[OF h(3) e]]]]
  note t2 = t[THEN conjunct2, THEN mp,
              OF conjI[OF h(1) conjI[OF h(2) conjI[OF d conjI[OF h(3) conjI[OF e up]]]]], unfolded f]
  have m: "fst (main ?w) = 0"
    using t1[THEN conjunct2, THEN mp, OF g] .
  show ?thesis
    by (intro conjI h(1) h(2) h(3) p up f g m t1[THEN conjunct1] t2[THEN conjunct1] t2[THEN conjunct2])
qed


end
